theory Spec2Isabelle
  imports Main "HOL-Library.AList"
begin

section \<open>Strings of the script\<close>

text \<open>
  The script is Google Apps Script (TypeScript).  A JavaScript string is modelled as a
  \<^typ>\<open>string\<close>, each \<^typ>\<open>char\<close> standing for the UTF-16 code unit of the same number
  (the code units below 256).  Characters that have no plain literal are written by
  their code.
\<close>

abbreviation BSL :: char where "BSL \<equiv> CHR 0x5C"
abbreviation DQUOTE :: char where "DQUOTE \<equiv> CHR 0x22"
abbreviation SQUOTE :: char where "SQUOTE \<equiv> CHR 0x27"
abbreviation TAB :: char where "TAB \<equiv> CHR 0x09"
abbreviation LF :: char where "LF \<equiv> CHR 0x0A"
abbreviation VT :: char where "VT \<equiv> CHR 0x0B"
abbreviation FF :: char where "FF \<equiv> CHR 0x0C"
abbreviation CR :: char where "CR \<equiv> CHR 0x0D"
abbreviation NBSP :: char where "NBSP \<equiv> CHR 0xA0"

text \<open>The number of a code unit, and a range of code units as in \<open>[a-z]\<close>.\<close>

definition code :: "char \<Rightarrow> nat" where
  "code c = of_char c"

definition in_range :: "char \<Rightarrow> char \<Rightarrow> char \<Rightarrow> bool" where
  "in_range lo hi c = (code lo \<le> code c \<and> code c \<le> code hi)"

text \<open>
  \<open>toLowerCase\<close>: among the code units below 256 it changes the letters \<open>A\<close> to \<open>Z\<close> and the
  letters of the Latin-1 block from U+00C0 to U+00DE other than the sign U+00D7; the
  lower-case letter is 32 places further.
\<close>

definition is_upper :: "char \<Rightarrow> bool" where
  "is_upper c =
     (in_range CHR ''A'' CHR ''Z'' c \<or> in_range (CHR 0xC0) (CHR 0xD6) c
      \<or> in_range (CHR 0xD8) (CHR 0xDE) c)"

definition toLowerCase_char :: "char \<Rightarrow> char" where
  "toLowerCase_char c = (if is_upper c then char_of (code c + 32) else c)"

definition toLowerCase :: "string \<Rightarrow> string" where
  "toLowerCase s = map toLowerCase_char s"

text \<open>\<open>\s\<close>, which is also what \<open>trim\<close> strips: white space and line terminators.\<close>

definition is_space :: "char \<Rightarrow> bool" where
  "is_space c = (c \<in> set [TAB, LF, VT, FF, CR, CHR '' '', NBSP])"

definition is_line_terminator :: "char \<Rightarrow> bool" where
  "is_line_terminator c = (c = LF \<or> c = CR)"

text \<open>\<open>[a-z0-9]\<close> under the flag \<open>i\<close>, \<open>\w\<close> and \<open>\d\<close>.\<close>

definition is_alnum :: "char \<Rightarrow> bool" where
  "is_alnum c =
     (in_range CHR ''a'' CHR ''z'' c \<or> in_range CHR ''A'' CHR ''Z'' c
      \<or> in_range CHR ''0'' CHR ''9'' c)"

definition is_word :: "char \<Rightarrow> bool" where
  "is_word c = (is_alnum c \<or> c = CHR ''_'')"

definition is_digit :: "char \<Rightarrow> bool" where
  "is_digit c = in_range CHR ''0'' CHR ''9'' c"

definition trim :: "string \<Rightarrow> string" where
  "trim s = rev (dropWhile is_space (rev (dropWhile is_space s)))"

definition startsWith :: "string \<Rightarrow> string \<Rightarrow> bool" where
  "startsWith s p = (take (length p) s = p)"

definition endsWith :: "string \<Rightarrow> string \<Rightarrow> bool" where
  "endsWith s p = (length p \<le> length s \<and> drop (length s - length p) s = p)"

fun join :: "string \<Rightarrow> string list \<Rightarrow> string" where
  "join sep [] = []"
| "join sep [x] = x"
| "join sep (x # y # ys) = x @ sep @ join sep (y # ys)"

text \<open>A value is falsy for the script's \<open>!v\<close> tests when it is the empty string.\<close>

definition truthy :: "string \<Rightarrow> bool" where
  "truthy s = (s \<noteq> [])"

section \<open>Regular expressions\<close>

text \<open>
  The regular expressions of the script, with the backtracking semantics of ECMAScript.
  A cursor is a position in the subject: the character before it, if any, and the rest
  of the subject.  \<open>rx_ends r cur\<close> lists the cursors at which a match of \<open>r\<close> begun at
  \<open>cur\<close> can end, in the order in which the backtracking matcher tries them, so the
  match that \<open>exec\<close> reports at a position is the first of the list.  Quantifiers are
  greedy; an iteration of a star that consumes nothing is rejected, as the standard
  prescribes.
\<close>

type_synonym cursor = "char option \<times> string"

datatype rx =
    Eps
  | Cls "char \<Rightarrow> bool"
  | Seq rx rx
  | Alt rx rx
  | Star rx
  | BOL
  | WordB

function rx_ends :: "rx \<Rightarrow> cursor \<Rightarrow> cursor list" where
  "rx_ends Eps cur = [cur]"
| "rx_ends (Cls p) (pv, []) = []"
| "rx_ends (Cls p) (pv, c # cs) = (if p c then [(Some c, cs)] else [])"
| "rx_ends (Seq a b) cur = concat (map (rx_ends b) (rx_ends a cur))"
| "rx_ends (Alt a b) cur = rx_ends a cur @ rx_ends b cur"
| "rx_ends (Star a) cur =
     concat (map (\<lambda>cur'. if length (snd cur') < length (snd cur)
                           then rx_ends (Star a) cur' else [])
                 (rx_ends a cur)) @ [cur]"
| "rx_ends BOL (pv, rest) =
     (if (case pv of None \<Rightarrow> True | Some c \<Rightarrow> is_line_terminator c)
      then [(pv, rest)] else [])"
| "rx_ends WordB (pv, rest) =
     (if (case pv of None \<Rightarrow> False | Some c \<Rightarrow> is_word c)
         \<noteq> (case rest of [] \<Rightarrow> False | c # _ \<Rightarrow> is_word c)
      then [(pv, rest)] else [])"
  by pat_completeness auto
termination
  by (relation "measures [\<lambda>(r, cur). size r, \<lambda>(r, cur). length (snd cur)]") auto

text \<open>The equation of the star repeats itself, so it is unfolded by hand.\<close>

declare rx_ends.simps(6) [simp del]

text \<open>Derived forms: a literal character, a literal text, \<open>r+\<close>, \<open>r?\<close> and \<open>r{n}\<close>.\<close>

definition Lit :: "char \<Rightarrow> rx" where
  "Lit c = Cls (\<lambda>x. x = c)"

fun Str :: "string \<Rightarrow> rx" where
  "Str [] = Eps"
| "Str [c] = Lit c"
| "Str (c # d # cs) = Seq (Lit c) (Str (d # cs))"

definition Plus :: "rx \<Rightarrow> rx" where
  "Plus r = Seq r (Star r)"

definition Opt :: "rx \<Rightarrow> rx" where
  "Opt r = Alt r Eps"

fun Rep :: "nat \<Rightarrow> rx \<Rightarrow> rx" where
  "Rep 0 r = Eps"
| "Rep (Suc 0) r = r"
| "Rep (Suc (Suc n)) r = Seq r (Rep (Suc n) r)"

text \<open>The text a match covers: what lies between its two cursors.\<close>

definition matched :: "cursor \<Rightarrow> cursor \<Rightarrow> string" where
  "matched cur en = take (length (snd cur) - length (snd en)) (snd cur)"

text \<open>
  \<open>String.prototype.match\<close> with a regular expression without the \<open>g\<close> flag: the
  leftmost position at which the expression matches, and the first match there.  The
  result is the text of the match (the expressions used this way have no groups).
\<close>

fun rx_search :: "rx \<Rightarrow> cursor \<Rightarrow> string option" where
  "rx_search r (pv, []) =
     (case rx_ends r (pv, []) of [] \<Rightarrow> None | en # _ \<Rightarrow> Some (matched (pv, []) en))"
| "rx_search r (pv, c # cs) =
     (case rx_ends r (pv, c # cs) of
        [] \<Rightarrow> rx_search r (Some c, cs)
      | en # _ \<Rightarrow> Some (matched (pv, c # cs) en))"

text \<open>
  \<open>String.prototype.replace\<close> with a regular expression with the \<open>g\<close> flag.  The subject
  is scanned from the left; the text of each match is replaced by \<open>f\<close> of it and the
  scan goes on after the match.  After an empty match the scan moves on by one
  character.
\<close>

function replace_from :: "rx \<Rightarrow> (string \<Rightarrow> string) \<Rightarrow> cursor \<Rightarrow> string" where
  "replace_from r f (pv, []) =
     (case rx_ends r (pv, []) of [] \<Rightarrow> [] | en # _ \<Rightarrow> f [])"
| "replace_from r f (pv, c # cs) =
     (case rx_ends r (pv, c # cs) of
        [] \<Rightarrow> c # replace_from r f (Some c, cs)
      | en # _ \<Rightarrow>
          if length (snd en) < Suc (length cs)
          then f (matched (pv, c # cs) en) @ replace_from r f en
          else f [] @ c # replace_from r f (Some c, cs))"
  by pat_completeness auto
termination
  by (relation "measure (\<lambda>(r, f, cur). length (snd cur))") auto

definition String_replace :: "string \<Rightarrow> rx \<Rightarrow> (string \<Rightarrow> string) \<Rightarrow> string" where
  "String_replace s r f = replace_from r f (None, s)"

section \<open>Logging, errors and the services of the platform\<close>

text \<open>Every \<open>throw\<close> of the script and every exception of a service is a value.\<close>

datatype error =
    InvalidDriveUrl string
  | AttachmentTooLarge string
  | TemplateNotFound string "string list"
  | DriveError string
  | JsonSyntaxError
  | TemplateError
  | MailError
  | TypeError

text \<open>\<open>CustomLogger\<close>: \<open>CONFIG.DEBUG_MODE\<close> is \<open>true\<close>, so every debug message is logged.\<close>

datatype log_entry =
    LogDebug string
  | LogError string error
  | LogInfo string

record drive_file =
  file_size :: nat
  file_blob :: string

record mail =
  mail_recipients :: string
  mail_subject :: string
  mail_htmlBody :: string
  mail_attachments :: "string list"
  mail_from :: string

text \<open>
  The bindings handed to a template: the object parsed from the \<open>template_values\<close> cell
  (\<open>None\<close> for the empty object literal) and the \<open>sessionId\<close> property set on it.
\<close>

record 'j template_values =
  parsed_values :: "'j option"
  sessionId :: "string option"

text \<open>
  The services the script calls are parameters of the model: \<open>JSON.parse\<close> (\<open>None\<close> when
  it throws) and \<open>JSON.stringify\<close>, \<open>DriveApp.getFileById\<close> (\<open>None\<close> when it throws),
  \<open>HtmlService.createTemplate(t)\<close> evaluated with bindings (\<open>None\<close> when that throws),
  whether \<open>GmailApp.sendEmail\<close> accepts a mail, whether \<open>setTrashed\<close> succeeds on a
  file, and the time \<open>new Date()\<close> gives.
\<close>

record 'j platform =
  JSON_parse :: "string \<Rightarrow> 'j option"
  JSON_stringify :: "'j \<Rightarrow> string"
  DriveApp_getFileById :: "string \<Rightarrow> drive_file option"
  HtmlService_evaluate :: "string \<Rightarrow> 'j template_values \<Rightarrow> string option"
  GmailApp_accepts :: "mail \<Rightarrow> bool"
  Drive_setTrashed :: "string \<Rightarrow> bool"
  new_Date :: string

section \<open>EmailUtils.parseSessionId\<close>

text \<open>\<open>/\b\d{3}-\d{3}-\d{3}\b/\<close>\<close>

definition sessionIdRegex :: rx where
  "sessionIdRegex =
     Seq WordB (Seq (Rep 3 (Cls is_digit)) (Seq (Lit CHR ''-'')
       (Seq (Rep 3 (Cls is_digit)) (Seq (Lit CHR ''-'')
         (Seq (Rep 3 (Cls is_digit)) WordB)))))"

text \<open>
  \<open>text.match(sessionIdRegex)\<close> gives \<open>null\<close> or the match array, whose only element is
  the matched text, the expression having no group and no \<open>g\<close> flag.
\<close>

definition String_match :: "string \<Rightarrow> rx \<Rightarrow> string list option" where
  "String_match s r = map_option (\<lambda>m. [m]) (rx_search r (None, s))"

definition multiple_ids_message :: "string \<Rightarrow> string" where
  "multiple_ids_message text =
     ''Multiple different session IDs found in the text: '' @ text @ [LF] @ '' Using first match.''"

definition parseSessionId :: "string \<Rightarrow> string option \<times> log_entry list" where
  "parseSessionId text =
     (if \<not> truthy text then (None, [])
      else case String_match text sessionIdRegex of
        None \<Rightarrow> (None, [LogDebug (''No Bluebeam Session ID found in the text: '' @ text)])
      | Some matches \<Rightarrow>
          let ids = filter truthy matches in
          (case ids of [] \<Rightarrow> None | i # _ \<Rightarrow> if truthy i then Some i else None,
           LogDebug (''Found session IDs: '' @ join '', '' ids)
           # (if length ids > 1 then [LogDebug (multiple_ids_message text)] else [])))"

section \<open>TextUtils.sanitizeJsonText\<close>

text \<open>
  The text that \<open>sanitizeJsonText\<close> hands to \<open>JSON.parse\<close>: the variable \<open>cleaned\<close>
  after the three replacements \<open>/\\"/g\<close>, \<open>/\\\\/g\<close> and \<open>/\r?\n/g\<close>, the trim and the
  two brace tests.
\<close>

definition sanitizeJsonText_cleaned :: "string \<Rightarrow> string" where
  "sanitizeJsonText_cleaned text =
     (let cleaned =
            trim (String_replace
                   (String_replace
                     (String_replace text (Str [BSL, DQUOTE]) (\<lambda>m. [DQUOTE]))
                     (Str [BSL, BSL]) (\<lambda>m. [BSL]))
                   (Seq (Opt (Lit CR)) (Lit LF)) (\<lambda>m. '' ''));
          cleaned = (if \<not> startsWith cleaned ''{'' then ''{'' @ cleaned else cleaned);
          cleaned = (if \<not> endsWith cleaned ''}'' then cleaned @ ''}'' else cleaned)
      in cleaned)"

text \<open>The validation: parse and re-stringify; a parse error is logged and gives \<open>{}\<close>.\<close>

definition parse_and_stringify :: "'j platform \<Rightarrow> string \<Rightarrow> string \<times> log_entry list" where
  "parse_and_stringify P cleaned =
     (case JSON_parse P cleaned of
        None \<Rightarrow> (''{}'', [LogError ''Error sanitizing JSON text'' JsonSyntaxError])
      | Some parsed \<Rightarrow> (JSON_stringify P parsed, []))"

text \<open>\<open>sanitizeJsonText\<close> of \<open>src/Code.ts\<close> (version 1.1.0): a falsy text is returned as it is.\<close>

definition sanitizeJsonText :: "'j platform \<Rightarrow> string \<Rightarrow> string \<times> log_entry list" where
  "sanitizeJsonText P text =
     (if \<not> truthy text then (text, [])
      else parse_and_stringify P (sanitizeJsonText_cleaned text))"

subsection \<open>The passes as the specification words them\<close>

text \<open>
  The specification lists the cleanup passes as (a) collapse doubled backslashes,
  (b) un-escape escaped quote characters, (c) replace line breaks with spaces, (d) trim,
  (e) prepend \<open>{\<close> if the text does not start with it and append \<open>}\<close> if it does not end
  with it.  Each pass is defined here on its own, by recursion over the text.
\<close>

fun collapse_doubled_backslashes :: "string \<Rightarrow> string" where
  "collapse_doubled_backslashes (c # d # cs) =
     (if c = BSL \<and> d = BSL then BSL # collapse_doubled_backslashes cs
      else c # collapse_doubled_backslashes (d # cs))"
| "collapse_doubled_backslashes cs = cs"

fun unescape_quotes :: "string \<Rightarrow> string" where
  "unescape_quotes (c # d # cs) =
     (if c = BSL \<and> d = DQUOTE then DQUOTE # unescape_quotes cs
      else c # unescape_quotes (d # cs))"
| "unescape_quotes cs = cs"

fun line_breaks_to_spaces :: "string \<Rightarrow> string" where
  "line_breaks_to_spaces [] = []"
| "line_breaks_to_spaces [c] = (if c = LF then '' '' else [c])"
| "line_breaks_to_spaces (c # d # cs) =
     (if c = CR \<and> d = LF then CHR '' '' # line_breaks_to_spaces cs
      else if c = LF then CHR '' '' # line_breaks_to_spaces (d # cs)
      else c # line_breaks_to_spaces (d # cs))"

definition add_braces :: "string \<Rightarrow> string" where
  "add_braces t =
     (let t1 = (case t of [] \<Rightarrow> ''{'' | c # _ \<Rightarrow> if c = CHR ''{'' then t else CHR ''{'' # t)
      in if last t1 = CHR ''}'' then t1 else t1 @ ''}'')"

definition passes_in_spec_order :: "string \<Rightarrow> string" where
  "passes_in_spec_order text =
     add_braces (trim (line_breaks_to_spaces
       (unescape_quotes (collapse_doubled_backslashes text))))"

definition passes_in_code_order :: "string \<Rightarrow> string" where
  "passes_in_code_order text =
     add_braces (trim (line_breaks_to_spaces
       (collapse_doubled_backslashes (unescape_quotes text))))"

section \<open>Rows, sheets and templates\<close>

text \<open>
  A sheet is the grid \<open>getValues\<close> returns, the header row first; a cell is a string.
  An object of the script (\<open>EmailRow\<close>, the header map, the index of the template
  labels) is a plain object created by \<open>{}\<close>: the list of its own properties, in the
  order of their creation (assigning to a property that exists keeps its place),
  with \<open>Object.prototype\<close> behind it.
\<close>

type_synonym obj = "(string \<times> string) list"

subsection \<open>Properties read and written by name\<close>

text \<open>
  \<open>row.template_label\<close>, \<open>row.distribution_emails\<close> and the other fields the script
  names in its text.  None of these names is a member of \<open>Object.prototype\<close>, so the
  value read is the own property, or \<open>undefined\<close> when there is none; the script only
  tests such a value with \<open>!\<close> or passes it to a function that tests it so, and
  \<open>undefined\<close> and the empty string are both falsy, so \<open>get_prop\<close> gives the empty
  string for it.  Properties whose name is computed are read with \<open>get_member\<close> below.
\<close>

definition get_prop :: "obj \<Rightarrow> string \<Rightarrow> string" where
  "get_prop ob k = (case map_of ob k of None \<Rightarrow> [] | Some v \<Rightarrow> v)"

definition set_prop :: "obj \<Rightarrow> string \<Rightarrow> string \<Rightarrow> obj" where
  "set_prop ob k v = AList.update k v ob"

definition field_names :: "string list" where
  "field_names =
     [''template_label'', ''distribution_emails'', ''additional_emails'',
      ''revu_session_invite'', ''template_values'', ''email_body_template'',
      ''attachments_urls'', ''email_subject_template'', ''subject_template_value'',
      ''email_template_values'']"

subsection \<open>Properties with a computed name\<close>

text \<open>
  \<open>ob[k]\<close> for a name \<open>k\<close> that comes from a sheet (a header, a template label).  The
  members of \<open>Object.prototype\<close> (ECMAScript 2019 with its Annex B, the V8 runtime the
  project is compiled for) are inherited by every plain object: reading one of
  these names from an object that has no own property of the name gives a function,
  or the prototype itself for \<open>__proto__\<close>, which is truthy and is not \<open>undefined\<close>.
\<close>

definition Object_prototype :: "string list" where
  "Object_prototype =
     [''constructor'', ''__defineGetter__'', ''__defineSetter__'', ''hasOwnProperty'',
      ''__lookupGetter__'', ''__lookupSetter__'', ''isPrototypeOf'', ''propertyIsEnumerable'',
      ''toString'', ''valueOf'', ''__proto__'', ''toLocaleString'']"

datatype 'v member = Undefined | Own 'v | Inherited

definition get_member :: "(string \<times> 'v) list \<Rightarrow> string \<Rightarrow> 'v member" where
  "get_member ob k =
     (case map_of ob k of
        Some v \<Rightarrow> Own v
      | None \<Rightarrow> if k \<in> set Object_prototype then Inherited else Undefined)"

text \<open>\<open>!!ob[k]\<close> for an object whose own values are strings.\<close>

definition truthy_member :: "string member \<Rightarrow> bool" where
  "truthy_member m = (case m of Undefined \<Rightarrow> False | Own v \<Rightarrow> truthy v | Inherited \<Rightarrow> True)"

text \<open>
  \<open>ob[k] = v\<close> for a string or a number \<open>v\<close>.  The name \<open>__proto__\<close> is an accessor of
  \<open>Object.prototype\<close> whose setter ignores a value that is not an object: the
  assignment creates no property.  Any other name becomes an own property.
\<close>

definition set_member :: "(string \<times> 'v) list \<Rightarrow> string \<Rightarrow> 'v \<Rightarrow> (string \<times> 'v) list" where
  "set_member ob k v = (if k = ''__proto__'' then ob else AList.update k v ob)"

definition hasOwnProperty :: "(string \<times> 'v) list \<Rightarrow> string \<Rightarrow> bool" where
  "hasOwnProperty ob k = (map_of ob k \<noteq> None)"

text \<open>
  \<open>Object.keys(ob)\<close>, which is also the order of \<open>for (const k in ob)\<close> (no member of
  \<open>Object.prototype\<close> is enumerable): first the names that are array indices (the
  decimal numerals of the numbers below 4294967295, without a leading zero) in the
  order of their numbers, then the other names in the order of their creation.
\<close>

definition nat_of_digits :: "string \<Rightarrow> nat" where
  "nat_of_digits s = foldl (\<lambda>n c. 10 * n + (code c - 48)) 0 s"

definition is_array_index :: "string \<Rightarrow> bool" where
  "is_array_index k =
     (k \<noteq> [] \<and> list_all is_digit k \<and> (k = ''0'' \<or> hd k \<noteq> CHR ''0'')
      \<and> nat_of_digits k < 4294967295)"

definition Object_keys :: "(string \<times> 'v) list \<Rightarrow> string list" where
  "Object_keys ob =
     sort_key nat_of_digits (filter is_array_index (map fst ob))
     @ filter (\<lambda>k. \<not> is_array_index k) (map fst ob)"

subsection \<open>SpreadsheetUtils\<close>

text \<open>A loop whose body may throw: the first exception ends it.\<close>

fun fold_sum :: "('a \<Rightarrow> 'b \<Rightarrow> 'e + 'b) \<Rightarrow> 'a list \<Rightarrow> 'b \<Rightarrow> 'e + 'b" where
  "fold_sum f [] b = Inr b"
| "fold_sum f (x # xs) b = (case f x b of Inl e \<Rightarrow> Inl e | Inr b' \<Rightarrow> fold_sum f xs b')"

text \<open>\<open>row[i] || ''\<close>\<close>

definition cell :: "string list \<Rightarrow> nat \<Rightarrow> string" where
  "cell row i = (if i < length row then row ! i else [])"

definition mapHeadersToIndices :: "string list \<Rightarrow> (string \<times> nat) list" where
  "mapHeadersToIndices headerRow =
     fold (\<lambda>(header, index) acc. set_member acc header index)
          (zip headerRow [0 ..< length headerRow]) []"

text \<open>
  \<open>row[headers[field]] || ''\<close>, where \<open>headers[field]\<close> is not \<open>undefined\<close>.  The row may be
  \<open>undefined\<close> (\<open>None\<close>), and reading a property of \<open>undefined\<close> throws a \<open>TypeError\<close>.  An
  index that is an inherited member names no element of the row.
\<close>

fun read_row :: "string list option \<Rightarrow> nat member \<Rightarrow> error + string" where
  "read_row None m = Inl TypeError"
| "read_row (Some row) (Own i) = Inr (cell row i)"
| "read_row (Some row) m = Inr []"

definition mapRowToObject ::
  "string list option \<Rightarrow> (string \<times> nat) list \<Rightarrow> string list \<Rightarrow> error + obj" where
  "mapRowToObject row headers requiredFields =
     (case fold_sum (\<lambda>field res.
                       case get_member headers field of
                         Undefined \<Rightarrow> Inr (set_member res field [])
                       | m \<Rightarrow> (case read_row row m of
                                 Inl e \<Rightarrow> Inl e
                               | Inr v \<Rightarrow> Inr (set_member res field v)))
                    requiredFields [] of
        Inl e \<Rightarrow> Inl e
      | Inr result \<Rightarrow>
          fold_sum (\<lambda>header res.
                      if \<not> hasOwnProperty res header
                      then (case read_row row (get_member headers header) of
                              Inl e \<Rightarrow> Inl e
                            | Inr v \<Rightarrow> Inr (set_member res header v))
                      else Inr res)
                   (Object_keys headers) result)"

subsection \<open>TemplateManager\<close>

record TemplateManager =
  templateData :: "string list list"
  headerMap :: "(string \<times> nat) list"
  templateLabelIndex :: "(string \<times> nat) list"

text \<open>
  \<open>loadTemplateData\<close>.  When the sheet has no column \<open>template_label\<close> the index stays
  empty.
\<close>

definition loadTemplateData :: "string list list \<Rightarrow> TemplateManager" where
  "loadTemplateData sheet =
     (if length sheet \<le> 1
      then \<lparr>templateData = sheet, headerMap = [], templateLabelIndex = []\<rparr>
      else
        let hm = mapHeadersToIndices (sheet ! 0) in
        case get_member hm ''template_label'' of
          Own li \<Rightarrow>
            \<lparr>templateData = sheet, headerMap = hm,
             templateLabelIndex =
               fold (\<lambda>i idx. let label = cell (sheet ! i) li
                              in if truthy label then set_member idx label i else idx)
                    [1 ..< length sheet] []\<rparr>
        | _ \<Rightarrow> \<lparr>templateData = sheet, headerMap = hm, templateLabelIndex = []\<rparr>)"

definition requiredFields :: "string list" where
  "requiredFields =
     [''template_label'', ''distribution_emails'', ''additional_emails'',
      ''revu_session_invite'', ''template_values'', ''email_body_template'',
      ''attachments_urls'', ''email_subject_template'', ''subject_template_value'']"

text \<open>
  \<open>getTemplateByLabel\<close>.  \<open>!this.templateLabelIndex[label]\<close> holds when the label has no
  entry and is no inherited member, and when its entry is 0.  For a label that is an
  inherited member, \<open>rowIndex\<close> is a function (or the prototype), \<open>templateData[rowIndex]\<close>
  is \<open>undefined\<close>, and \<open>mapRowToObject\<close> is called with it.
\<close>

definition getTemplateByLabel :: "TemplateManager \<Rightarrow> string \<Rightarrow> error + obj option" where
  "getTemplateByLabel tm label =
     (if \<not> truthy label then Inr None
      else
        let rowIndex = get_member (templateLabelIndex tm) label in
        if (case rowIndex of Undefined \<Rightarrow> True | Own i \<Rightarrow> i = 0 | Inherited \<Rightarrow> False)
        then Inr None
        else
          let templateRow =
                (case rowIndex of
                   Own i \<Rightarrow> if i < length (templateData tm)
                            then Some (templateData tm ! i) else None
                 | _ \<Rightarrow> None)
          in case mapRowToObject templateRow (headerMap tm) requiredFields of
               Inl e \<Rightarrow> Inl e
             | Inr emailRow \<Rightarrow> Inr (Some (set_prop emailRow ''template_label'' label)))"

definition getAvailableTemplates :: "TemplateManager \<Rightarrow> string list" where
  "getAvailableTemplates tm = Object_keys (templateLabelIndex tm)"

text \<open>
  \<open>EmailProcessor.applyTemplateIfNeeded\<close>; the \<open>for (const key in template)\<close> loop is the
  fold.  Its keys are own properties of the template, so \<open>template[key]\<close> is the own
  value.
\<close>

definition applyTemplateIfNeeded :: "TemplateManager \<Rightarrow> obj \<Rightarrow> error + obj" where
  "applyTemplateIfNeeded tm row =
     (if \<not> truthy (get_prop row ''template_label'') then Inr row
      else case getTemplateByLabel tm (get_prop row ''template_label'') of
        Inl e \<Rightarrow> Inl e
      | Inr None \<Rightarrow>
          Inl (TemplateNotFound (get_prop row ''template_label'') (getAvailableTemplates tm))
      | Inr (Some template) \<Rightarrow>
          Inr (fold (\<lambda>key row.
                       case get_member template key of
                         Own v \<Rightarrow>
                           if \<not> truthy_member (get_member row key) \<and> truthy v
                           then set_member row key v
                           else row
                       | _ \<Rightarrow> row)
                    (Object_keys template) row))"

section \<open>More of the JavaScript library\<close>

text \<open>A number in a template literal.\<close>

definition digits :: string where
  "digits = ''0123456789''"

function show_nat :: "nat \<Rightarrow> string" where
  "show_nat n =
     (if n < 10 then [digits ! n] else show_nat (n div 10) @ [digits ! (n mod 10)])"
  by pat_completeness auto
termination
  by (relation "measure id") auto

declare show_nat.simps [simp del]

text \<open>
  \<open>String.prototype.split\<close> with a regular expression: the pieces between the matches.
  \<open>piece\<close> is the text since the last separator.  A match that is empty does not
  separate at the start of a piece.
\<close>

function split_from :: "rx \<Rightarrow> cursor \<Rightarrow> string \<Rightarrow> string list" where
  "split_from r (pv, []) piece = [piece]"
| "split_from r (pv, c # cs) piece =
     (case rx_ends r (pv, c # cs) of
        [] \<Rightarrow> split_from r (Some c, cs) (piece @ [c])
      | en # _ \<Rightarrow>
          if length (snd en) < Suc (length cs) then piece # split_from r en []
          else if piece = [] then split_from r (Some c, cs) [c]
          else piece # split_from r (pv, c # cs) [])"
  by pat_completeness auto
termination
  by (relation "measures [\<lambda>(r, cur, piece). length (snd cur), \<lambda>(r, cur, piece). length piece]")
     auto

definition String_split :: "string \<Rightarrow> rx \<Rightarrow> string list" where
  "String_split s r = split_from r (None, s) []"

text \<open>A \<open>Set\<close> built from an array, spread back into an array: first occurrences, in order.\<close>

definition Set_of :: "string list \<Rightarrow> string list" where
  "Set_of xs = fold (\<lambda>x acc. if x \<in> set acc then acc else acc @ [x]) xs []"

section \<open>Configuration\<close>

definition FROM_EMAIL :: string where
  "FROM_EMAIL = ''constdoc@ucsc.edu''"

definition DEFAULT_SUBJECT :: string where
  "DEFAULT_SUBJECT = ''Your Subject Here''"

definition MAX_ATTACHMENT_SIZE :: nat where
  "MAX_ATTACHMENT_SIZE = 21 * 1024 * 1024"

section \<open>FileUtils\<close>

text \<open>\<open>/[-\w]{25,}/\<close>\<close>

definition fileIdRegex :: rx where
  "fileIdRegex =
     Seq (Rep 25 (Cls (\<lambda>c. c = CHR ''-'' \<or> is_word c)))
         (Star (Cls (\<lambda>c. c = CHR ''-'' \<or> is_word c)))"

definition extractFileId :: "string \<Rightarrow> error + string" where
  "extractFileId url =
     (case String_match url fileIdRegex of
        None \<Rightarrow> Inl (InvalidDriveUrl url)
      | Some m \<Rightarrow>
          (case m of
             [] \<Rightarrow> Inl (InvalidDriveUrl url)
           | m0 # _ \<Rightarrow> if truthy m0 then Inr m0 else Inl (InvalidDriveUrl url)))"

definition getFileContentFromUrl ::
  "'j platform \<Rightarrow> string \<Rightarrow> (error + string) \<times> log_entry list" where
  "getFileContentFromUrl P url =
     (case extractFileId url of
        Inl e \<Rightarrow> (Inl e, [])
      | Inr fileId \<Rightarrow>
          (case DriveApp_getFileById P fileId of
             None \<Rightarrow> (Inl (DriveError fileId), [LogDebug (''Retrieving content for fileId: '' @ fileId)])
           | Some file \<Rightarrow>
               (Inr (file_blob file),
                [LogDebug (''Retrieving content for fileId: '' @ fileId),
                 LogDebug (''Content retrieved (first 100 chars): '' @ take 100 (file_blob file))])))"

definition isFileTooLarge :: "'j platform \<Rightarrow> string \<Rightarrow> nat \<Rightarrow> error + bool" where
  "isFileTooLarge P fileId maxSize =
     (case DriveApp_getFileById P fileId of
        None \<Rightarrow> Inl (DriveError fileId)
      | Some file \<Rightarrow> Inr (file_size file > maxSize))"

definition getFileBlob :: "'j platform \<Rightarrow> string \<Rightarrow> error + string" where
  "getFileBlob P fileId =
     (case DriveApp_getFileById P fileId of
        None \<Rightarrow> Inl (DriveError fileId)
      | Some file \<Rightarrow> Inr (file_blob file))"

section \<open>TextUtils.decodeHtmlEntities\<close>

definition decodeHtmlEntities :: "string \<Rightarrow> string" where
  "decodeHtmlEntities text =
     (if \<not> truthy text then text
      else String_replace
             (String_replace
               (String_replace
                 (String_replace
                   (String_replace text (Str ''&amp;'') (\<lambda>m. ''&''))
                   (Str ''&lt;'') (\<lambda>m. ''<''))
                 (Str ''&gt;'') (\<lambda>m. ''>''))
               (Str ''&quot;'') (\<lambda>m. [DQUOTE]))
             (Str ''&#39;'') (\<lambda>m. [SQUOTE]))"

section \<open>EmailUtils.parseEmailAddresses and combineEmailAddresses\<close>

text \<open>
  The address expression has the flags \<open>gi\<close>; a class or a letter under \<open>i\<close> also matches
  the upper-case letters.
  \<^verbatim>\<open>([a-z0-9!#$%&'*+\/=?^_`{|}~-]+(?:\.[a-z0-9!#$%&'*+\/=?^_`{|}~-]+)*(@|\s+at\s+)\<close>
  \<^verbatim>\<open>(?:[a-z0-9](?:[a-z0-9-]*[a-z0-9])?(\.|\s+dot\s+))+[a-z0-9](?:[a-z0-9-]*[a-z0-9])?)\<close>
\<close>

definition atom_specials :: string where
  "atom_specials = ''!#$%&'' @ [SQUOTE] @ ''*+/=?^_`{|}~-''"

definition is_atom_char :: "char \<Rightarrow> bool" where
  "is_atom_char c = (is_alnum c \<or> c \<in> set atom_specials)"

definition is_alnum_hyphen :: "char \<Rightarrow> bool" where
  "is_alnum_hyphen c = (is_alnum c \<or> c = CHR ''-'')"

text \<open>A letter of the expression under the flag \<open>i\<close>.\<close>

definition LitI :: "char \<Rightarrow> char \<Rightarrow> rx" where
  "LitI l u = Cls (\<lambda>x. x = l \<or> x = u)"

definition domainLabel :: rx where
  "domainLabel = Seq (Cls is_alnum) (Opt (Seq (Star (Cls is_alnum_hyphen)) (Cls is_alnum)))"

definition atSeparator :: rx where
  "atSeparator =
     Alt (Lit CHR ''@'')
         (Seq (Plus (Cls is_space))
              (Seq (Seq (LitI CHR ''a'' CHR ''A'') (LitI CHR ''t'' CHR ''T''))
                   (Plus (Cls is_space))))"

definition dotSeparator :: rx where
  "dotSeparator =
     Alt (Lit CHR ''.'')
         (Seq (Plus (Cls is_space))
              (Seq (Seq (LitI CHR ''d'' CHR ''D'')
                        (Seq (LitI CHR ''o'' CHR ''O'') (LitI CHR ''t'' CHR ''T'')))
                   (Plus (Cls is_space))))"

definition emailRegex :: rx where
  "emailRegex =
     Seq (Plus (Cls is_atom_char))
       (Seq (Star (Seq (Lit CHR ''.'') (Plus (Cls is_atom_char))))
         (Seq atSeparator
           (Seq (Plus (Seq domainLabel dotSeparator))
                domainLabel)))"

text \<open>\<open>/^\/\/.*/gm\<close>\<close>

definition commentLineRegex :: rx where
  "commentLineRegex =
     Seq BOL (Seq (Lit CHR ''/'') (Seq (Lit CHR ''/'')
       (Star (Cls (\<lambda>c. \<not> is_line_terminator c)))))"

text \<open>
  \<open>/\s+(at|dot)\s+/g\<close> and its replacement function.  The group is the match without
  the white space around it.
\<close>

definition atDotRegex :: rx where
  "atDotRegex =
     Seq (Plus (Cls is_space))
         (Seq (Alt (Str ''at'') (Str ''dot'')) (Plus (Cls is_space)))"

definition atDotReplacement :: "string \<Rightarrow> string" where
  "atDotReplacement m = (if trim m = ''at'' then ''@'' else ''.'')"

text \<open>
  Every match ends at or after its start, and a match of the address expression
  consumes at least one character; so the \<open>exec\<close> loop of \<open>parseEmailAddresses\<close> ends.
\<close>

lemma rx_ends_Seq_mem:
  "en \<in> set (rx_ends (Seq a b) cur) \<longleftrightarrow> (\<exists>x \<in> set (rx_ends a cur). en \<in> set (rx_ends b x))"
  by auto

lemma rx_ends_le:
  "en \<in> set (rx_ends r cur) \<Longrightarrow> length (snd en) \<le> length (snd cur)"
proof (induction r cur arbitrary: en rule: rx_ends.induct)
  case (4 a b cur)
  from "4.prems" obtain x where x: "x \<in> set (rx_ends a cur)" and en: "en \<in> set (rx_ends b x)"
    unfolding rx_ends_Seq_mem by blast
  from "4.IH"(1) [OF x] "4.IH"(2) [OF x en] show ?case by simp
next
  case (6 a cur)
  from "6.prems" consider "en = cur"
    | x where "x \<in> set (rx_ends a cur)" "length (snd x) < length (snd cur)"
        "en \<in> set (rx_ends (Star a) x)"
    by (auto simp: rx_ends.simps(6) [of a cur] split: if_splits)
  then show ?case
  proof cases
    case 1
    then show ?thesis by simp
  next
    case 2
    from "6.IH"(2) [OF 2(1) 2(2) 2(3)] 2(2) show ?thesis by simp
  qed
qed (auto split: if_splits)

lemma rx_ends_Seq_less:
  assumes "\<And>x. x \<in> set (rx_ends a cur) \<Longrightarrow> length (snd x) < length (snd cur)"
    and "en \<in> set (rx_ends (Seq a b) cur)"
  shows "length (snd en) < length (snd cur)"
proof -
  from assms(2) obtain x where x: "x \<in> set (rx_ends a cur)" and en: "en \<in> set (rx_ends b x)"
    unfolding rx_ends_Seq_mem by blast
  from assms(1) [OF x] rx_ends_le [OF en] show ?thesis by simp
qed

lemma rx_ends_Cls_less:
  "en \<in> set (rx_ends (Cls p) cur) \<Longrightarrow> length (snd en) < length (snd cur)"
  by (cases cur; cases "snd cur") (auto split: if_splits)

lemma emailRegex_consumes:
  assumes "rx_ends emailRegex cur = en # ens"
  shows "length (snd en) < length (snd cur)"
proof -
  have en: "en \<in> set (rx_ends emailRegex cur)" using assms by simp
  have "length (snd x) < length (snd cur)"
    if "x \<in> set (rx_ends (Plus (Cls is_atom_char)) cur)" for x
    using that unfolding Plus_def
    by (rule rx_ends_Seq_less [rotated]) (rule rx_ends_Cls_less)
  then show ?thesis
    using en unfolding emailRegex_def by (rule rx_ends_Seq_less)
qed

text \<open>
  The loop \<open>while ((match = emailRegex.exec(cleanInput)) !== null)\<close>: \<open>exec\<close> finds the
  leftmost match at or after \<open>lastIndex\<close> and sets \<open>lastIndex\<close> to its end.
\<close>

function emailRegex_exec_loop :: "cursor \<Rightarrow> string list" where
  "emailRegex_exec_loop (pv, rest) =
     (case rx_ends emailRegex (pv, rest) of
        en # _ \<Rightarrow>
          (if \<not> startsWith (matched (pv, rest) en) ''//''
           then [String_replace (matched (pv, rest) en) atDotRegex atDotReplacement]
           else [])
          @ emailRegex_exec_loop en
      | [] \<Rightarrow>
          (case rest of
             [] \<Rightarrow> []
           | c # cs \<Rightarrow> emailRegex_exec_loop (Some c, cs)))"
  by pat_completeness auto
termination
proof (relation "measure (\<lambda>cur. length (snd cur))")
  show "wf (measure (\<lambda>cur. length (snd cur)))" by simp
next
  fix pv :: "char option" and rest :: string and en :: cursor and ens :: "cursor list"
  assume "rx_ends emailRegex (pv, rest) = en # ens"
  from emailRegex_consumes [OF this]
  show "(en, (pv, rest)) \<in> measure (\<lambda>cur. length (snd cur))" by simp
next
  fix pv :: "char option" and rest :: string and c :: char and cs :: string
  assume "rest = c # cs"
  then show "((Some c, cs), (pv, rest)) \<in> measure (\<lambda>cur. length (snd cur))" by simp
qed

declare emailRegex_exec_loop.simps [simp del]

definition parseEmailAddresses :: "string \<Rightarrow> string list" where
  "parseEmailAddresses input =
     (if \<not> truthy input then []
      else
        let cleanInput = toLowerCase (String_replace input commentLineRegex (\<lambda>m. []))
        in emailRegex_exec_loop (None, cleanInput))"

definition uniqueEmails :: "string list \<Rightarrow> string list" where
  "uniqueEmails sources =
     Set_of (filter truthy (concat (map parseEmailAddresses (filter truthy sources))))"

definition combineEmailAddresses :: "string list \<Rightarrow> string option" where
  "combineEmailAddresses sources =
     (if length (uniqueEmails sources) > 0 then Some (join '','' (uniqueEmails sources))
      else None)"

subsection \<open>The first match, with a continuation\<close>

text \<open>
  \<open>exec\<close> and \<open>replace\<close> take the head of \<open>rx_ends\<close>.  \<open>first_match r k cur\<close> is the
  first end of \<open>r\<close> from \<open>cur\<close> that the continuation \<open>k\<close> accepts, in the order in
  which a backtracking matcher tries them; with it the head of \<open>rx_ends\<close> of a sequence
  is found part by part.  \<open>cursor_end pv xs\<close> is the character before the position
  reached by reading \<open>xs\<close>.
\<close>

fun first_some :: "('a \<Rightarrow> 'b option) \<Rightarrow> 'a list \<Rightarrow> 'b option" where
  "first_some k [] = None"
| "first_some k (x # xs) = (case k x of None \<Rightarrow> first_some k xs | Some y \<Rightarrow> Some y)"

definition first_match :: "rx \<Rightarrow> (cursor \<Rightarrow> 'a option) \<Rightarrow> cursor \<Rightarrow> 'a option" where
  "first_match r k cur = first_some k (rx_ends r cur)"

definition cursor_end :: "char option \<Rightarrow> string \<Rightarrow> char option" where
  "cursor_end pv xs = (if xs = [] then pv else Some (last xs))"

subsection \<open>The parts of an address\<close>

text \<open>
  The texts that the parts of \<open>emailRegex\<close> accept: an atom of the local part
  (\<open>[a-z0-9!#$%&'*+/=?^_`{|}~-]+\<close>), a label of the domain
  (\<open>[a-z0-9](?:[a-z0-9-]*[a-z0-9])?\<close>, read before and after \<open>toLowerCase\<close>), the white
  space around the words \<open>at\<close> and \<open>dot\<close> (\<open>\s+\<close>), and the further atoms of a local
  part, each after a dot.
\<close>

definition is_atom :: "string \<Rightarrow> bool" where
  "is_atom a = (a \<noteq> [] \<and> list_all is_atom_char a)"

definition is_label :: "string \<Rightarrow> bool" where
  "is_label b = (b \<noteq> [] \<and> is_alnum (hd b) \<and> is_alnum (last b) \<and> list_all is_alnum_hyphen b)"

definition is_spaces :: "string \<Rightarrow> bool" where
  "is_spaces w = (w \<noteq> [] \<and> list_all is_space w)"

definition dotted :: "string list \<Rightarrow> string" where
  "dotted as = concat (map (\<lambda>x. CHR ''.'' # x) as)"

section \<open>EmailBuilder\<close>

text \<open>
  What a run changes: the mails handed to \<open>GmailApp.sendEmail\<close> (accepted or not), the
  files trashed, the log, the alerts shown, and the three sheets.
\<close>

record world =
  transport :: "mail list"
  trashed :: "string list"
  logged :: "log_entry list"
  alerts :: "string list"
  toSend :: "string list list"
  history :: "string list list"
  templates :: "string list list"

definition say :: "log_entry list \<Rightarrow> world \<Rightarrow> world" where
  "say es w = w\<lparr>logged := logged w @ es\<rparr>"

definition EmailUtils_sendEmail ::
  "'j platform \<Rightarrow> string \<Rightarrow> string \<Rightarrow> string \<Rightarrow> string list \<Rightarrow> world \<Rightarrow> bool \<times> world" where
  "EmailUtils_sendEmail P recipients subject htmlBody attachments w =
     (let m = \<lparr>mail_recipients = recipients, mail_subject = subject, mail_htmlBody = htmlBody,
               mail_attachments = attachments, mail_from = FROM_EMAIL\<rparr>;
          w1 = (say [LogDebug (''Sending email to: '' @ recipients @ '', Subject: '' @ subject
                       @ '', Attachments: '' @ show_nat (length attachments))] w)
                 \<lparr>transport := transport w @ [m]\<rparr>
      in if GmailApp_accepts P m
         then (True, say [LogDebug ''Email sent successfully''] w1)
         else (False, say [LogError ''Error sending email'' MailError] w1))"

definition getTemplateValues ::
  "'j platform \<Rightarrow> obj \<Rightarrow> (error + 'j template_values) \<times> log_entry list" where
  "getTemplateValues P row =
     (let (sanitized, l1) = sanitizeJsonText P (get_prop row ''template_values'') in
      case (if truthy sanitized then map_option Some (JSON_parse P sanitized) else Some None) of
        None \<Rightarrow> (Inl JsonSyntaxError, l1)
      | Some values \<Rightarrow>
          let (sid, l2) = parseSessionId (get_prop row ''revu_session_invite'')
          in (Inr \<lparr>parsed_values = values, sessionId = sid\<rparr>, l1 @ l2))"

definition buildEmailBody :: "'j platform \<Rightarrow> obj \<Rightarrow> string option \<times> log_entry list" where
  "buildEmailBody P row =
     (case getFileContentFromUrl P (get_prop row ''email_body_template'') of
        (Inl e, l1) \<Rightarrow> (None, l1 @ [LogError ''Error building email body'' e])
      | (Inr templateContent, l1) \<Rightarrow>
          (case getTemplateValues P row of
             (Inl e, l2) \<Rightarrow> (None, l1 @ l2 @ [LogError ''Error building email body'' e])
           | (Inr values, l2) \<Rightarrow>
               (case HtmlService_evaluate P templateContent values of
                  None \<Rightarrow> (None, l1 @ l2 @ [LogError ''Error building email body'' TemplateError])
                | Some content \<Rightarrow> (Some content, l1 @ l2))))"

definition getFinalSubject :: "'j platform \<Rightarrow> obj \<Rightarrow> string \<times> log_entry list" where
  "getFinalSubject P row =
     (if truthy (get_prop row ''email_subject_template'') then
        (case getTemplateValues P row of
           (Inl e, l) \<Rightarrow>
             (DEFAULT_SUBJECT, l @ [LogError ''Error building subject from template'' e])
         | (Inr values, l) \<Rightarrow>
             (case HtmlService_evaluate P (get_prop row ''email_subject_template'') values of
                None \<Rightarrow>
                  (DEFAULT_SUBJECT,
                   l @ [LogError ''Error building subject from template'' TemplateError])
              | Some content \<Rightarrow>
                  let processedSubject = decodeHtmlEntities (trim content)
                  in (if truthy processedSubject then processedSubject else DEFAULT_SUBJECT, l)))
      else (DEFAULT_SUBJECT, []))"

text \<open>
  The evaluation of the subject template throws: the row has a subject template, and
  either reading the template values throws or the evaluator throws on the template.
\<close>

definition subject_evaluation_throws :: "'j platform \<Rightarrow> obj \<Rightarrow> bool" where
  "subject_evaluation_throws P row =
     (truthy (get_prop row ''email_subject_template'') \<and>
      (case fst (getTemplateValues P row) of
         Inl e \<Rightarrow> True
       | Inr values \<Rightarrow>
           HtmlService_evaluate P (get_prop row ''email_subject_template'') values = None))"

text \<open>\<open>/[,;]+/\<close>\<close>

definition urlSeparatorRegex :: rx where
  "urlSeparatorRegex = Plus (Cls (\<lambda>c. c = CHR '','' \<or> c = CHR '';''))"

definition fileUrls :: "obj \<Rightarrow> string list" where
  "fileUrls row = map trim (String_split (get_prop row ''attachments_urls'') urlSeparatorRegex)"

text \<open>
  The loop of \<open>getAttachments\<close> over the URLs, with the blobs collected so far.  Every
  exception is logged by the \<open>catch\<close> and thrown again.
\<close>

fun getAttachments_loop ::
  "'j platform \<Rightarrow> string list \<Rightarrow> string list \<Rightarrow> (error + string list) \<times> log_entry list" where
  "getAttachments_loop P [] attachments = (Inr attachments, [])"
| "getAttachments_loop P (url # urls) attachments =
     (case extractFileId url of
        Inl e \<Rightarrow> (Inl e, [LogError (''Error attaching file from URL '' @ url) e])
      | Inr fileId \<Rightarrow>
          (case isFileTooLarge P fileId MAX_ATTACHMENT_SIZE of
             Inl e \<Rightarrow>
               (Inl e,
                [LogDebug (''Retrieving attachment for fileId: '' @ fileId),
                 LogError (''Error attaching file from URL '' @ url) e])
           | Inr True \<Rightarrow>
               (Inl (AttachmentTooLarge fileId),
                [LogDebug (''Retrieving attachment for fileId: '' @ fileId),
                 LogError ''Attachment too large'' (AttachmentTooLarge fileId),
                 LogError (''Error attaching file from URL '' @ url) (AttachmentTooLarge fileId)])
           | Inr False \<Rightarrow>
               (case getFileBlob P fileId of
                  Inl e \<Rightarrow>
                    (Inl e,
                     [LogDebug (''Retrieving attachment for fileId: '' @ fileId),
                      LogError (''Error attaching file from URL '' @ url) e])
                | Inr blob \<Rightarrow>
                    (let (r, l) = getAttachments_loop P urls (attachments @ [blob])
                     in (r, LogDebug (''Retrieving attachment for fileId: '' @ fileId) # l)))))"

definition getAttachments :: "'j platform \<Rightarrow> obj \<Rightarrow> (error + string list) \<times> log_entry list" where
  "getAttachments P row =
     (if \<not> truthy (get_prop row ''attachments_urls'')
      then (Inr [], [LogDebug ''No attachments provided.''])
      else
        let (r, l) = getAttachments_loop P (fileUrls row) []
        in (r,
            LogDebug (''Processing '' @ show_nat (length (fileUrls row)) @ '' attachment(s).'')
            # l
            @ (case r of
                 Inl e \<Rightarrow> []
               | Inr attachments \<Rightarrow>
                   [LogDebug (''Total attachments retrieved: ''
                              @ show_nat (length attachments))])))"

text \<open>An attachment reference within the limit: its file exists and is not too large.\<close>

definition within_limit :: "'j platform \<Rightarrow> string \<Rightarrow> bool" where
  "within_limit P url =
     (case extractFileId url of
        Inl e \<Rightarrow> False
      | Inr fileId \<Rightarrow>
          (case DriveApp_getFileById P fileId of
             None \<Rightarrow> False
           | Some file \<Rightarrow> file_size file \<le> MAX_ATTACHMENT_SIZE))"

definition trashFile :: "'j platform \<Rightarrow> string \<Rightarrow> world \<Rightarrow> world" where
  "trashFile P fileId w =
     (if Drive_setTrashed P fileId then w\<lparr>trashed := trashed w @ [fileId]\<rparr>
      else say [LogError (''Error trashing file: '' @ fileId) (DriveError fileId)] w)"

definition trashAttachments :: "'j platform \<Rightarrow> obj \<Rightarrow> world \<Rightarrow> world" where
  "trashAttachments P row w =
     (if \<not> truthy (get_prop row ''attachments_urls'') then w
      else fold (\<lambda>url w.
                   case extractFileId url of
                     Inl e \<Rightarrow> say [LogError (''Error trashing file from URL '' @ url) e] w
                   | Inr fileId \<Rightarrow>
                       trashFile P fileId
                         (say [LogDebug (''Trashing file with fileId: '' @ fileId)] w))
                (fileUrls row) w)"

text \<open>
  \<open>EmailBuilder.sendEmail\<close>: \<open>Inr sent\<close> is the value returned, \<open>Inl e\<close> an exception that
  leaves the method (only \<open>getAttachments\<close> throws).
\<close>

definition EmailBuilder_sendEmail :: "'j platform \<Rightarrow> obj \<Rightarrow> world \<Rightarrow> (error + bool) \<times> world" where
  "EmailBuilder_sendEmail P row w =
     (case combineEmailAddresses
             [get_prop row ''distribution_emails'', get_prop row ''additional_emails''] of
        None \<Rightarrow> (Inr False, say [LogDebug ''No valid email addresses found.''] w)
      | Some recipients \<Rightarrow>
          (case buildEmailBody P row of
             (None, l1) \<Rightarrow>
               (Inr False, say (l1 @ [LogDebug ''Email body could not be generated.'']) w)
           | (Some emailBody, l1) \<Rightarrow>
               if \<not> truthy emailBody
               then (Inr False, say (l1 @ [LogDebug ''Email body could not be generated.'']) w)
               else
                 (case getAttachments P row of
                    (Inl e, l2) \<Rightarrow> (Inl e, say (l1 @ l2) w)
                  | (Inr attachments, l2) \<Rightarrow>
                      let (subject, l3) = getFinalSubject P row;
                          (sent, w1) = EmailUtils_sendEmail P recipients subject emailBody
                                         attachments (say (l1 @ l2 @ l3) w)
                      in (Inr sent, if sent then trashAttachments P row w1 else w1))))"

section \<open>EmailProcessor\<close>

definition validateRow :: "obj \<Rightarrow> bool \<times> log_entry list" where
  "validateRow row =
     (if \<not> truthy (get_prop row ''distribution_emails'')
         \<and> \<not> truthy (get_prop row ''additional_emails'')
      then (False, [LogDebug ''No recipient email addresses provided.''])
      else if \<not> truthy (get_prop row ''email_body_template'')
      then (False, [LogDebug ''No email template URL provided.''])
      else (True, []))"

definition processRow :: "'j platform \<Rightarrow> obj \<Rightarrow> world \<Rightarrow> (error + bool) \<times> world" where
  "processRow P row w =
     (case validateRow row of
        (False, l) \<Rightarrow> (Inr False, say l w)
      | (True, l) \<Rightarrow> EmailBuilder_sendEmail P row (say l w))"

text \<open>\<open>deleteRow\<close> takes the number of the row, counted from 1.\<close>

definition deleteRow :: "nat \<Rightarrow> string list list \<Rightarrow> string list list" where
  "deleteRow rowIndex sheet = take (rowIndex - 1) sheet @ drop rowIndex sheet"

definition moveRowToHistory :: "'j platform \<Rightarrow> nat \<Rightarrow> string list \<Rightarrow> world \<Rightarrow> world" where
  "moveRowToHistory P rowIndex rowData w =
     w\<lparr>history := history w @ [rowData @ [new_Date P]],
       toSend := deleteRow rowIndex (toSend w)\<rparr>"

text \<open>
  The message of an \<open>Error\<close> the script throws; the message of an exception of a service
  or of the engine is not modelled.
\<close>

definition error_message :: "error \<Rightarrow> string" where
  "error_message e =
     (case e of
        InvalidDriveUrl url \<Rightarrow> ''Invalid Google Drive URL: '' @ url
      | AttachmentTooLarge fileId \<Rightarrow> ''Attachment file too large: '' @ fileId
      | TemplateNotFound label available \<Rightarrow>
          ''Template '' @ [DQUOTE] @ label @ [DQUOTE]
          @ '' not found in the distribution_templates sheet. Available templates: ''
          @ (if truthy (join '', '' available) then join '', '' available else ''None'')
      | DriveError fileId \<Rightarrow> []
      | JsonSyntaxError \<Rightarrow> []
      | TemplateError \<Rightarrow> []
      | MailError \<Rightarrow> []
      | TypeError \<Rightarrow> [])"

text \<open>
  The body of the loop of \<open>sendEmails\<close> for the row \<open>i\<close> of the grid \<open>data\<close> read at the start
  of the run.
\<close>

definition sendEmails_row ::
  "'j platform \<Rightarrow> TemplateManager \<Rightarrow> (string \<times> nat) list \<Rightarrow> string list list \<Rightarrow> nat
     \<Rightarrow> world \<Rightarrow> world" where
  "sendEmails_row P tm headers data i w =
     (let row = (if i < length data then data ! i else []) in
      if list_all (\<lambda>cell. \<not> truthy cell) row
      then say [LogDebug (''Skipping empty row '' @ show_nat (i + 1))] w
      else
        case mapRowToObject (Some row) headers [] of
          Inl e \<Rightarrow> say [LogError (''Error processing row '' @ show_nat (i + 1)) e] w
        | Inr rawEmailRow \<Rightarrow>
            (case applyTemplateIfNeeded tm rawEmailRow of
               Inl templateError \<Rightarrow>
                 (say [LogError (''Template error in row '' @ show_nat (i + 1)) templateError] w)
                   \<lparr>alerts := alerts w @ [''Error with template in row '' @ show_nat (i + 1)
                                            @ '': '' @ error_message templateError]\<rparr>
             | Inr emailRow \<Rightarrow>
                 (case processRow P emailRow w of
                    (Inl e, w1) \<Rightarrow>
                      say [LogError (''Error processing row '' @ show_nat (i + 1)) e] w1
                  | (Inr True, w1) \<Rightarrow>
                      moveRowToHistory P (i + 1) row
                        (say [LogDebug (''Row '' @ show_nat (i + 1)
                                        @ '' processed successfully. Moving to history.'')] w1)
                  | (Inr False, w1) \<Rightarrow>
                      say [LogDebug (''Row '' @ show_nat (i + 1)
                                     @ '' skipped due to validation or processing failure.'')] w1)))"

definition sendEmails :: "'j platform \<Rightarrow> world \<Rightarrow> world" where
  "sendEmails P w =
     (let data = toSend w;
          headers = mapHeadersToIndices (case data of [] \<Rightarrow> [] | h # _ \<Rightarrow> h);
          tm = loadTemplateData (templates w)
      in fold (sendEmails_row P tm headers data) (rev [1 ..< length data]) w)"

section \<open>The subject in \<open>src/src/Code.ts\<close> (version 1.2.1)\<close>

text \<open>
  In version 1.2.1 the constructor of \<open>EmailBuilder\<close> passes the two subject fields
  through \<open>TextUtils.sanitizeInput\<close>.  The functions of that version which differ from
  those above carry the suffix \<open>_121\<close>; its template values are in the column
  \<open>email_template_values\<close>.
\<close>

definition sanitizeInput :: "string \<Rightarrow> string" where
  "sanitizeInput text =
     (if \<not> truthy text then []
      else String_replace text (Lit CHR ''&'') (\<lambda>m. ''and''))"

definition EmailBuilder_constructor_121 :: "obj \<Rightarrow> obj" where
  "EmailBuilder_constructor_121 row =
     (let row = (if truthy (get_prop row ''subject_template_value'')
                 then set_prop row ''subject_template_value''
                        (sanitizeInput (get_prop row ''subject_template_value''))
                 else row);
          row = (if truthy (get_prop row ''email_subject_template'')
                 then set_prop row ''email_subject_template''
                        (sanitizeInput (get_prop row ''email_subject_template''))
                 else row)
      in row)"

definition sanitizeJsonText_121 :: "'j platform \<Rightarrow> string \<Rightarrow> string \<times> log_entry list" where
  "sanitizeJsonText_121 P text =
     (if \<not> truthy text then (''{}'', [])
      else case JSON_parse P (sanitizeJsonText_cleaned text) of
        None \<Rightarrow> (''{}'', [LogError ''Error sanitizing JSON'' JsonSyntaxError])
      | Some obj \<Rightarrow> (JSON_stringify P obj, []))"

definition parseSessionId_121 :: "string \<Rightarrow> string option" where
  "parseSessionId_121 text =
     (if \<not> truthy text then None
      else case String_match text sessionIdRegex of
        None \<Rightarrow> None
      | Some m \<Rightarrow> (case m of [] \<Rightarrow> None | m0 # _ \<Rightarrow> Some m0))"

definition getTemplateValues_121 ::
  "'j platform \<Rightarrow> obj \<Rightarrow> (error + 'j template_values) \<times> log_entry list" where
  "getTemplateValues_121 P row =
     (let (json, l) = sanitizeJsonText_121 P (get_prop row ''email_template_values'') in
      case JSON_parse P json of
        None \<Rightarrow> (Inl JsonSyntaxError, l)
      | Some vals \<Rightarrow>
          (Inr \<lparr>parsed_values = Some vals,
                sessionId = parseSessionId_121 (get_prop row ''revu_session_invite'')\<rparr>, l))"

text \<open>
  \<open>getFinalSubject\<close> of version 1.2.1, on the row the constructor has stored.  Its
  \<open>decodeHtmlEntities\<close> has no test for an empty text, on which the replacements change
  nothing.
\<close>

definition getFinalSubject_121 :: "'j platform \<Rightarrow> obj \<Rightarrow> string \<times> log_entry list" where
  "getFinalSubject_121 P row =
     (if \<not> truthy (get_prop row ''email_subject_template'') then (DEFAULT_SUBJECT, [])
      else
        (case getTemplateValues_121 P row of
           (Inl e, l) \<Rightarrow> (DEFAULT_SUBJECT, l @ [LogError ''Error building subject'' e])
         | (Inr vals, l) \<Rightarrow>
             (case HtmlService_evaluate P (get_prop row ''email_subject_template'') vals of
                None \<Rightarrow> (DEFAULT_SUBJECT, l @ [LogError ''Error building subject'' TemplateError])
              | Some content \<Rightarrow>
                  let s = decodeHtmlEntities (trim content)
                  in (if truthy s then s else DEFAULT_SUBJECT, l))))"

section \<open>Worked examples\<close>

text \<open>
  A templates sheet with one template, \<open>T\<close>, which sets \<open>a\<close>, the recipients and a
  column named \<open>constructor\<close>.
\<close>

definition ex_templates :: "string list list" where
  "ex_templates =
     [[''template_label'', ''a'', ''distribution_emails'', ''constructor''],
      [''T'', ''y'', ''u@x.com'', ''v'']]"

text \<open>
  A platform for the examples.  Its \<open>JSON.parse\<close> knows the texts \<open>{}\<close> and \<open>{"n":"5"}\<close>
  and its values are those texts.  Its Drive holds a body template and two attachments,
  the second above the size limit.  Its template evaluator knows the body template,
  throws on the template \<open><?= oops( ?>\<close> and gives any other text back as it is.
\<close>

definition ex_values :: string where
  \<open>ex_values = ''{"n":"5"}''\<close>

definition ex_body_id :: string where
  "ex_body_id = ''1RfbiEpwU2APw3fXg5VoD4Dg2PlvacTV7EIrb_h98mcY''"

definition ex_small_id :: string where
  "ex_small_id = ''small-attachment-0123456789abcdef''"

definition ex_large_id :: string where
  "ex_large_id = ''large-attachment-0123456789abcdef''"

definition ex_platform :: "string platform" where
  "ex_platform =
     \<lparr>JSON_parse = (\<lambda>s. if s = ''{}'' \<or> s = ex_values then Some s else None),
      JSON_stringify = (\<lambda>v. v),
      DriveApp_getFileById =
        map_of [(ex_body_id, \<lparr>file_size = 20, file_blob = ''<p><?= n ?></p>''\<rparr>),
                (ex_small_id, \<lparr>file_size = 1024, file_blob = ''small''\<rparr>),
                (ex_large_id, \<lparr>file_size = 22 * 1024 * 1024, file_blob = ''large''\<rparr>)],
      HtmlService_evaluate =
        (\<lambda>t v. if t = ''<p><?= n ?></p>'' \<and> parsed_values v = Some ex_values
                then Some ''<p>5</p>''
                else if t = ''<?= oops( ?>'' then None
                else Some t),
      GmailApp_accepts = (\<lambda>m. True),
      Drive_setTrashed = (\<lambda>fileId. True),
      new_Date = ''2025-01-01T00:00:00Z''\<rparr>"

definition ex_world :: world where
  "ex_world =
     \<lparr>transport = [], trashed = [], logged = [], alerts = [],
      toSend = [], history = [], templates = ex_templates\<rparr>"

text \<open>
  A pending sheet with one record: a recipient, the body template, two attachments of
  which the second is too large, and a subject template on which the evaluator throws.
\<close>

definition ex_headers :: "string list" where
  "ex_headers =
     [''distribution_emails'', ''email_body_template'', ''attachments_urls'',
      ''email_subject_template'']"

definition ex_cells :: "string list" where
  "ex_cells = [''u@x.com'', ex_body_id, ex_small_id @ '', '' @ ex_large_id, ''<?= oops( ?>'']"

definition ex_row :: obj where
  "ex_row = zip ex_headers ex_cells"

text \<open>The same record with the small attachment only, and with no recipient at all.\<close>

definition ex_cells_small :: "string list" where
  "ex_cells_small = [''u@x.com'', ex_body_id, ex_small_id, ''<?= oops( ?>'']"

definition ex_cells_no_recipient :: "string list" where
  "ex_cells_no_recipient = ['''', ex_body_id, ex_small_id, ''Subject'']"

text \<open>
  A pending sheet with a column for the template label, and three records on it: one
  that takes its recipients from the template \<open>T\<close>, one that names \<open>T\<close> and has no body
  template, and one that names a template the templates sheet does not have.
\<close>

definition ex_label_headers :: "string list" where
  "ex_label_headers = [''template_label'', ''distribution_emails'', ''email_body_template'']"

definition ex_cells_defaults :: "string list" where
  "ex_cells_defaults = [''T'', [], ex_body_id]"

definition ex_cells_no_body :: "string list" where
  "ex_cells_no_body = [''T'', [], []]"

definition ex_cells_missing :: "string list" where
  "ex_cells_missing = [''Z'', [], ex_body_id]"

text \<open>
  The record with a first attachment reference that is no Drive URL before the large
  one, and the record with the large attachment and a recipient text that holds no
  address.
\<close>

definition ex_cells_notes :: "string list" where
  "ex_cells_notes = [''u@x.com'', ex_body_id, ''notes.pdf, '' @ ex_large_id, ''Subject'']"

definition ex_cells_unparsed :: "string list" where
  "ex_cells_unparsed = [''see notes'', ex_body_id, ex_large_id, ''Subject'']"

text \<open>
  The template values as typed with escaped quotes, the same with double-escaped quotes,
  and a record with ampersands in its subject fields.
\<close>

definition ex_typed_values :: string where
  "ex_typed_values =
     ''{'' @ [BSL, DQUOTE] @ ''n'' @ [BSL, DQUOTE] @ '':'' @ [BSL, DQUOTE] @ ''5''
     @ [BSL, DQUOTE] @ ''}''"

definition ex_double_escaped :: string where
  "ex_double_escaped =
     ''{'' @ [BSL, BSL, DQUOTE] @ ''n'' @ [BSL, BSL, DQUOTE] @ '':'' @ [BSL, BSL, DQUOTE] @ ''5''
     @ [BSL, BSL, DQUOTE] @ ''}''"

definition ex_subject_row :: obj where
  "ex_subject_row =
     [(''email_subject_template'', ''R&D review''), (''subject_template_value'', ''Q&A'')]"

section \<open>Properties\<close>

subsection \<open>Literal replacements\<close>

lemma rx_ends_Str2:
  "rx_ends (Str [a, b]) (pv, s) =
     (case s of c # d # cs \<Rightarrow> if c = a \<and> d = b then [(Some d, cs)] else [] | _ \<Rightarrow> [])"
  by (cases s; cases "tl s") (auto simp: Lit_def)

lemma replace_literal_pair:
  assumes "\<And>c d cs. g (c # d # cs) = (if c = a \<and> d = b then x # g cs else c # g (d # cs))"
    and "\<And>c. g [c] = [c]" and "g [] = []"
  shows "replace_from (Str [a, b]) (\<lambda>m. [x]) (pv, s) = g s"
proof (induction s arbitrary: pv rule: induct_list012)
  case 1
  then show ?case by (simp add: rx_ends_Str2 assms del: rx_ends.simps Str.simps)
next
  case (2 c)
  then show ?case by (simp add: rx_ends_Str2 assms del: rx_ends.simps Str.simps)
next
  case (3 c d cs)
  then show ?case by (simp add: rx_ends_Str2 assms del: rx_ends.simps Str.simps)
qed

lemma replace_unescape:
  "String_replace s (Str [BSL, DQUOTE]) (\<lambda>m. [DQUOTE]) = unescape_quotes s"
  unfolding String_replace_def by (rule replace_literal_pair) simp_all

lemma replace_collapse:
  "String_replace s (Str [BSL, BSL]) (\<lambda>m. [BSL]) = collapse_doubled_backslashes s"
  unfolding String_replace_def by (rule replace_literal_pair) simp_all

lemma rx_ends_crlf:
  "rx_ends (Seq (Opt (Lit CR)) (Lit LF)) (pv, s) =
     (case s of [] \<Rightarrow> []
      | c # t \<Rightarrow>
          (if c = CR then (case t of [] \<Rightarrow> [] | d # cs \<Rightarrow> if d = LF then [(Some d, cs)] else [])
           else if c = LF then [(Some c, t)] else []))"
  by (cases s; cases "tl s") (auto simp: Lit_def Opt_def)

lemma replace_line_breaks:
  "String_replace s (Seq (Opt (Lit CR)) (Lit LF)) (\<lambda>m. '' '') = line_breaks_to_spaces s"
proof -
  have "replace_from (Seq (Opt (Lit CR)) (Lit LF)) (\<lambda>m. '' '') (pv, s)
          = line_breaks_to_spaces s" for pv
  proof (induction s arbitrary: pv rule: line_breaks_to_spaces.induct)
    case 1
    then show ?case by (simp add: rx_ends_crlf del: rx_ends.simps)
  next
    case (2 c)
    then show ?case by (simp add: rx_ends_crlf del: rx_ends.simps)
  next
    case (3 c d cs)
    then show ?case by (simp add: rx_ends_crlf del: rx_ends.simps)
  qed
  then show ?thesis by (simp only: String_replace_def)
qed

lemma brace_tests:
  "(if \<not> endsWith (if \<not> startsWith t ''{'' then ''{'' @ t else t) ''}''
    then (if \<not> startsWith t ''{'' then ''{'' @ t else t) @ ''}''
    else (if \<not> startsWith t ''{'' then ''{'' @ t else t)) = add_braces t"
proof -
  have sw: "startsWith u ''{'' \<longleftrightarrow> (case u of [] \<Rightarrow> False | c # _ \<Rightarrow> c = CHR ''{'')" for u
    by (cases u) (simp_all add: startsWith_def)
  have ew: "endsWith u ''}'' \<longleftrightarrow> (u \<noteq> [] \<and> last u = CHR ''}'')" for u
  proof (cases u rule: rev_cases)
    case Nil
    then show ?thesis by (simp add: endsWith_def)
  next
    case (snoc ys y)
    then show ?thesis by (simp add: endsWith_def)
  qed
  show ?thesis
    by (cases t) (simp_all add: sw ew add_braces_def Let_def)
qed

lemma cleaned_code_order: "sanitizeJsonText_cleaned text = passes_in_code_order text"
  unfolding sanitizeJsonText_cleaned_def passes_in_code_order_def Let_def
    replace_unescape replace_collapse replace_line_breaks
  by (rule brace_tests)

text \<open>
  C8 on a text with double-escaped quotes, each quote after two backslashes, which the
  documentation of \<open>sanitizeJsonText\<close> names among the inputs it repairs.  The script
  un-escapes the quotes first, which takes the second backslash of each pair, and no
  doubled backslash is left to collapse: the text handed to \<open>JSON.parse\<close> has a backslash
  before every quote, the parse fails, and the result is \<open>{}\<close> with an error in the log.
  The passes in the order (a), (b), (c), (d), (e) give the text \<open>{"n":"5"}\<close>, which
  parses.
\<close>

theorem sanitizeJsonText_double_escaped_quotes:
  "sanitizeJsonText_cleaned ex_double_escaped = ex_typed_values \<and>
   JSON_parse ex_platform ex_typed_values = None \<and>
   sanitizeJsonText ex_platform ex_double_escaped
     = (''{}'', [LogError ''Error sanitizing JSON text'' JsonSyntaxError]) \<and>
   passes_in_spec_order ex_double_escaped = ex_values \<and>
   parse_and_stringify ex_platform (passes_in_spec_order ex_double_escaped) = (ex_values, [])"
proof -
  have c: "sanitizeJsonText_cleaned ex_double_escaped = ex_typed_values"
    by (simp add: cleaned_code_order passes_in_code_order_def ex_double_escaped_def
        ex_typed_values_def add_braces_def trim_def is_space_def)
  have n: "JSON_parse ex_platform ex_typed_values = None"
    by (simp add: ex_platform_def ex_typed_values_def ex_values_def)
  have t: "truthy ex_double_escaped"
    by (simp add: truthy_def ex_double_escaped_def)
  have s: "passes_in_spec_order ex_double_escaped = ex_values"
    by (simp add: passes_in_spec_order_def ex_double_escaped_def ex_values_def add_braces_def
        trim_def is_space_def)
  have p: "parse_and_stringify ex_platform ex_values = (ex_values, [])"
    by (simp add: parse_and_stringify_def ex_platform_def)
  from c n t s p show ?thesis
    by (simp add: sanitizeJsonText_def parse_and_stringify_def)
qed

text \<open>
  C2 at the empty text: \<open>sanitizeJsonText\<close> of \<open>src/Code.ts\<close> returns the empty text
  itself, which is not the text \<open>{}\<close> and which \<open>JSON.parse\<close> rejects.
\<close>

theorem sanitizeJsonText_empty_text:
  "sanitizeJsonText P [] = ([], []) \<and> fst (sanitizeJsonText P []) \<noteq> ''{}''"
  by (simp add: sanitizeJsonText_def truthy_def)

text \<open>
  C7 on a text with two different session identifiers: \<open>parseSessionId\<close> returns the
  first, and the only log entry is the one that reports it.  \<open>match\<close> without the \<open>g\<close>
  flag yields one identifier, so the test \<open>ids.length > 1\<close> fails and no conflict is
  logged.
\<close>

theorem parseSessionId_two_ids:
  "parseSessionId ''Session 111-222-333 was replaced by 444-555-666''
     = (Some ''111-222-333'', [LogDebug ''Found session IDs: 111-222-333''])"
  by (simp add: parseSessionId_def String_match_def sessionIdRegex_def truthy_def
      is_digit_def is_word_def is_alnum_def in_range_def code_def Lit_def matched_def
      numeral_3_eq_3)

subsection \<open>Objects\<close>

lemma field_names_not_inherited: "set field_names \<inter> set Object_prototype = {}"
  by (simp add: field_names_def Object_prototype_def)

lemma get_set_prop: "get_prop (set_prop ob k v) k' = (if k' = k then v else get_prop ob k')"
  by (simp add: get_prop_def set_prop_def update_conv')

lemma get_prop_member:
  "get_prop ob k = (case get_member ob k of Own v \<Rightarrow> v | _ \<Rightarrow> [])"
  by (simp add: get_prop_def get_member_def split: option.splits)

lemma get_member_not_inherited:
  "k \<notin> set Object_prototype \<Longrightarrow>
     get_member ob k = (if hasOwnProperty ob k then Own (get_prop ob k) else Undefined)"
  by (auto simp: get_member_def get_prop_def hasOwnProperty_def split: option.splits)

lemma truthy_get_prop_member:
  "k \<notin> set Object_prototype \<Longrightarrow> truthy (get_prop ob k) = truthy_member (get_member ob k)"
  by (simp add: get_member_def get_prop_def truthy_member_def truthy_def split: option.splits)

lemma get_set_member:
  "get_member (set_member ob k v) k' =
     (if k' = k \<and> k \<noteq> ''__proto__'' then Own v else get_member ob k')"
  by (simp add: get_member_def set_member_def update_conv')

lemma set_member_proto:
  "map_of (set_member ob k v) ''__proto__'' = map_of ob ''__proto__''"
  by (simp add: set_member_def update_conv')

lemma set_Object_keys: "set (Object_keys ob) = fst ` set ob"
  by (auto simp: Object_keys_def)

lemma get_member_Own_key: "get_member ob k = Own v \<Longrightarrow> k \<in> set (Object_keys ob)"
  by (auto simp: get_member_def set_Object_keys simp flip: dom_map_of_conv_image_fst
      split: option.splits if_splits)

lemma fold_sum_invariant:
  assumes "I b" and "fold_sum f xs b = Inr b'"
    and step: "\<And>x b b'. I b \<Longrightarrow> f x b = Inr b' \<Longrightarrow> I b'"
  shows "I b'"
  using assms(1,2)
proof (induction xs arbitrary: b)
  case Nil
  then show ?case by simp
next
  case (Cons x xs)
  from Cons.prems(2) obtain b1 where b1: "f x b = Inr b1" and r: "fold_sum f xs b1 = Inr b'"
    by (auto split: sum.splits)
  from step [OF Cons.prems(1) b1] have "I b1" .
  from Cons.IH [OF this r] show ?case .
qed

lemma fold_sum_total:
  assumes "\<And>x b. \<exists>b'. f x b = Inr b'"
  shows "\<exists>b'. fold_sum f xs b = Inr b'"
proof (induction xs arbitrary: b)
  case Nil
  then show ?case by simp
next
  case (Cons x xs)
  from assms [of x b] obtain b1 where "f x b = Inr b1" ..
  with Cons.IH [of b1] show ?case by simp
qed

lemma mapRowToObject_defined: "\<exists>ob. mapRowToObject (Some row) headers required = Inr ob"
proof -
  let ?f = "\<lambda>field res.
                       case get_member headers field of
                         Undefined \<Rightarrow> Inr (set_member res field [])
                       | m \<Rightarrow> (case read_row (Some row) m of
                                 Inl e \<Rightarrow> Inl e
                               | Inr v \<Rightarrow> Inr (set_member res field v))"
  have "\<exists>b'. ?f x b = (Inr b' :: error + obj)" for x b
    by (cases "get_member headers x") simp_all
  then have "\<exists>b'. fold_sum ?f required [] = (Inr b' :: error + obj)"
    by (rule fold_sum_total)
  then obtain result where r: "fold_sum ?f required [] = (Inr result :: error + obj)" ..
  let ?g = "\<lambda>header res.
                      if \<not> hasOwnProperty res header
                      then (case read_row (Some row) (get_member headers header) of
                              Inl e \<Rightarrow> Inl e
                            | Inr v \<Rightarrow> Inr (set_member res header v))
                      else Inr res"
  have "\<exists>b'. ?g x b = (Inr b' :: error + obj)" for x b
    by (cases "get_member headers x") simp_all
  then have "\<exists>b'. fold_sum ?g (Object_keys headers) result = (Inr b' :: error + obj)"
    by (rule fold_sum_total)
  with r show ?thesis
    by (simp add: mapRowToObject_def)
qed

lemma mapRowToObject_no_proto:
  assumes "mapRowToObject row headers required = Inr ob"
  shows "map_of ob ''__proto__'' = None"
proof -
  let ?I = "\<lambda>ob :: obj. map_of ob ''__proto__'' = None"
  let ?f = "\<lambda>field res.
                       case get_member headers field of
                         Undefined \<Rightarrow> Inr (set_member res field [])
                       | m \<Rightarrow> (case read_row row m of
                                 Inl e \<Rightarrow> Inl e
                               | Inr v \<Rightarrow> Inr (set_member res field v))"
  let ?g = "\<lambda>header res.
                      if \<not> hasOwnProperty res header
                      then (case read_row row (get_member headers header) of
                              Inl e \<Rightarrow> Inl e
                            | Inr v \<Rightarrow> Inr (set_member res header v))
                      else Inr res"
  from assms obtain result where r: "fold_sum ?f required [] = Inr result"
    and o: "fold_sum ?g (Object_keys headers) result = Inr ob"
    by (auto simp: mapRowToObject_def split: sum.splits)
  have f: "?I b'" if "?I b" "?f x b = Inr b'" for x b b'
    using that by (auto simp: set_member_proto split: member.splits sum.splits if_splits)
  have g: "?I b'" if "?I b" "?g x b = Inr b'" for x b b'
    using that by (auto simp: set_member_proto split: member.splits sum.splits if_splits)
  have "?I []"
    by simp
  from this r have "?I result"
    by (rule fold_sum_invariant) (rule f)
  from this o show ?thesis
    by (rule fold_sum_invariant) (rule g)
qed

lemma getTemplateByLabel_no_proto:
  assumes "getTemplateByLabel tm label = Inr (Some template)"
  shows "map_of template ''__proto__'' = None"
proof -
  from assms obtain row emailRow
    where m: "mapRowToObject row (headerMap tm) requiredFields = Inr emailRow"
      and t: "template = set_prop emailRow ''template_label'' label"
    by (auto simp: getTemplateByLabel_def Let_def split: if_splits sum.splits)
  from mapRowToObject_no_proto [OF m] show ?thesis
    unfolding t set_prop_def by (simp add: update_conv')
qed

subsection \<open>Template merge\<close>

lemma template_fold_member:
  assumes "map_of template ''__proto__'' = None"
  shows "get_member (fold (\<lambda>key row.
                       case get_member template key of
                         Own v \<Rightarrow>
                           if \<not> truthy_member (get_member row key) \<and> truthy v
                           then set_member row key v
                           else row
                       | _ \<Rightarrow> row) ks row) k =
     (case get_member template k of
        Own v \<Rightarrow> if k \<in> set ks \<and> truthy v \<and> \<not> truthy_member (get_member row k)
                 then Own v else get_member row k
      | _ \<Rightarrow> get_member row k)"
proof (induction ks arbitrary: row)
  case Nil
  then show ?case by (simp split: member.splits)
next
  case (Cons a ks)
  have p: "get_member template ''__proto__'' = Inherited"
    using assms by (simp add: get_member_def Object_prototype_def)
  show ?case
    by (simp add: Cons.IH) (auto simp: get_set_member truthy_member_def p split: member.splits)
qed

lemmas object_eval = get_member_def set_member_def Object_prototype_def Object_keys_def
  is_array_index_def hasOwnProperty_def cell_def is_digit_def in_range_def code_def

lemma ex_loadTemplateData:
  "loadTemplateData ex_templates =
     \<lparr>templateData = ex_templates,
      headerMap = [(''template_label'', 0), (''a'', 1), (''distribution_emails'', 2),
                   (''constructor'', 3)],
      templateLabelIndex = [(''T'', 1)]\<rparr>"
  by (simp add: loadTemplateData_def ex_templates_def mapHeadersToIndices_def truthy_def
      object_eval upt_rec)

lemma ex_getTemplate:
  "getTemplateByLabel (loadTemplateData ex_templates) ''T'' =
     Inr (Some [(''template_label'', ''T''), (''distribution_emails'', ''u@x.com''),
           (''additional_emails'', []), (''revu_session_invite'', []),
           (''template_values'', []), (''email_body_template'', []),
           (''attachments_urls'', []), (''email_subject_template'', []),
           (''subject_template_value'', []), (''a'', ''y''), (''constructor'', ''v'')])"
  unfolding ex_loadTemplateData
  by (simp add: getTemplateByLabel_def ex_templates_def truthy_def mapRowToObject_def
      requiredFields_def set_prop_def object_eval)

text \<open>
  The order of the keys, and labels that are members of \<open>Object.prototype\<close>: with
  templates in the sheet the lookup of such a label throws, with an empty sheet it gives
  a template with no value.  A label that is neither in the index nor inherited gives
  \<open>null\<close>.
\<close>

lemma ex_Object_keys_order:
  "Object_keys [(''10'', a), (''B'', b), (''2'', c), (''07'', d)] = [''2'', ''10'', ''B'', ''07'']"
  by (simp add: Object_keys_def is_array_index_def nat_of_digits_def is_digit_def in_range_def
      code_def)

lemma ex_inherited_label:
  "getTemplateByLabel (loadTemplateData ex_templates) ''constructor'' = Inl TypeError"
  unfolding ex_loadTemplateData
  by (simp add: getTemplateByLabel_def truthy_def mapRowToObject_def requiredFields_def
      object_eval)

lemma ex_inherited_label_empty_sheet:
  "getTemplateByLabel (loadTemplateData [[''template_label'']]) ''toString''
     = Inr (Some [(''template_label'', ''toString''), (''distribution_emails'', []),
           (''additional_emails'', []), (''revu_session_invite'', []),
           (''template_values'', []), (''email_body_template'', []),
           (''attachments_urls'', []), (''email_subject_template'', []),
           (''subject_template_value'', [])])"
  by (simp add: loadTemplateData_def getTemplateByLabel_def truthy_def mapRowToObject_def
      requiredFields_def set_prop_def object_eval)

lemma ex_unknown_label:
  "getTemplateByLabel (loadTemplateData ex_templates) ''Z'' = Inr None"
  unfolding ex_loadTemplateData
  by (simp add: getTemplateByLabel_def truthy_def object_eval)

text \<open>
  C1: a record without a template label is returned unchanged.  With a label whose
  template is found, the merge succeeds.  A field of the result differs from the
  record's only where the record's value is falsy and the template has a non-empty
  value of its own, which is then the value of the result; so no non-empty field is
  overwritten, a template value is copied only onto an empty field, and
  \<open>template_label\<close> is kept.  For the names that are no member of \<open>Object.prototype\<close>
  (all the fields the script reads are such) the value of the result is the record's
  where that is non-empty and the template's otherwise.
\<close>

theorem applyTemplateIfNeeded_merge:
  "(\<not> truthy (get_prop row ''template_label'') \<longrightarrow> applyTemplateIfNeeded tm row = Inr row) \<and>
   (truthy (get_prop row ''template_label'') \<and>
    getTemplateByLabel tm (get_prop row ''template_label'') = Inr (Some template) \<longrightarrow>
      (\<exists>row'. applyTemplateIfNeeded tm row = Inr row' \<and>
         (\<forall>k. get_member row' k =
                (case get_member template k of
                   Own v \<Rightarrow> if truthy v \<and> \<not> truthy_member (get_member row k)
                            then Own v else get_member row k
                 | _ \<Rightarrow> get_member row k)) \<and>
         (\<forall>k. truthy_member (get_member row k) \<longrightarrow> get_member row' k = get_member row k) \<and>
         (\<forall>k. get_member row' k \<noteq> get_member row k \<longrightarrow>
                \<not> truthy_member (get_member row k) \<and> get_member row' k = get_member template k) \<and>
         (\<forall>k. k \<notin> set Object_prototype \<longrightarrow>
                get_prop row' k =
                  (if truthy (get_prop row k) then get_prop row k else get_prop template k)) \<and>
         get_prop row' ''template_label'' = get_prop row ''template_label''))"
proof (intro conjI impI)
  assume "\<not> truthy (get_prop row ''template_label'')"
  then show "applyTemplateIfNeeded tm row = Inr row"
    by (simp add: applyTemplateIfNeeded_def)
next
  assume a: "truthy (get_prop row ''template_label'') \<and>
    getTemplateByLabel tm (get_prop row ''template_label'') = Inr (Some template)"
  define row' where "row' = fold (\<lambda>key row.
                       case get_member template key of
                         Own v \<Rightarrow>
                           if \<not> truthy_member (get_member row key) \<and> truthy v
                           then set_member row key v
                           else row
                       | _ \<Rightarrow> row) (Object_keys template) row"
  have r: "applyTemplateIfNeeded tm row = Inr row'"
    using a by (simp add: applyTemplateIfNeeded_def row'_def)
  from a have "getTemplateByLabel tm (get_prop row ''template_label'') = Inr (Some template)"
    by simp
  then have np: "map_of template ''__proto__'' = None"
    by (rule getTemplateByLabel_no_proto)
  have p: "get_member row' k =
                (case get_member template k of
                   Own v \<Rightarrow> if truthy v \<and> \<not> truthy_member (get_member row k)
                            then Own v else get_member row k
                 | _ \<Rightarrow> get_member row k)" for k
    unfolding row'_def template_fold_member [OF np]
    by (auto split: member.splits dest: get_member_Own_key)
  have q: "get_member row' k = get_member row k" if "truthy_member (get_member row k)" for k
    using that by (simp add: p split: member.splits)
  have c: "\<not> truthy_member (get_member row k) \<and> get_member row' k = get_member template k"
    if "get_member row' k \<noteq> get_member row k" for k
    using that by (auto simp: p split: member.splits if_splits)
  have n: "get_prop row' k =
             (if truthy (get_prop row k) then get_prop row k else get_prop template k)"
    if "k \<notin> set Object_prototype" for k
  proof -
    have gm: "get_member ob k = (case map_of ob k of Some v \<Rightarrow> Own v | None \<Rightarrow> Undefined)"
      for ob :: obj
      using that by (simp add: get_member_def)
    from p [of k] show ?thesis
      unfolding gm
      by (auto simp: get_prop_def truthy_member_def truthy_def split: option.splits if_splits)
  qed
  have l: "get_prop row' ''template_label'' = get_prop row ''template_label''"
    using a by (simp add: n Object_prototype_def)
  from r p q c n l
  show "\<exists>row'. applyTemplateIfNeeded tm row = Inr row' \<and>
         (\<forall>k. get_member row' k =
                (case get_member template k of
                   Own v \<Rightarrow> if truthy v \<and> \<not> truthy_member (get_member row k)
                            then Own v else get_member row k
                 | _ \<Rightarrow> get_member row k)) \<and>
         (\<forall>k. truthy_member (get_member row k) \<longrightarrow> get_member row' k = get_member row k) \<and>
         (\<forall>k. get_member row' k \<noteq> get_member row k \<longrightarrow>
                \<not> truthy_member (get_member row k) \<and> get_member row' k = get_member template k) \<and>
         (\<forall>k. k \<notin> set Object_prototype \<longrightarrow>
                get_prop row' k =
                  (if truthy (get_prop row k) then get_prop row k else get_prop template k)) \<and>
         get_prop row' ''template_label'' = get_prop row ''template_label''"
    by blast
qed

theorem applyTemplateIfNeeded_merge_witness:
  "truthy (get_prop [(''a'', ''x''), (''template_label'', ''T'')] ''template_label'') \<and>
   (\<exists>template. getTemplateByLabel (loadTemplateData ex_templates) ''T'' = Inr (Some template) \<and>
      get_member template ''a'' = Own ''y'' \<and> get_member template ''constructor'' = Own ''v'') \<and>
   truthy_member (get_member [(''a'', ''x''), (''template_label'', ''T'')] ''a'') \<and>
   truthy_member (get_member [(''a'', ''x''), (''template_label'', ''T'')] ''constructor'') \<and>
   ''a'' \<notin> set Object_prototype \<and>
   (\<exists>row'. applyTemplateIfNeeded (loadTemplateData ex_templates)
              [(''a'', ''x''), (''template_label'', ''T'')] = Inr row' \<and>
            get_member row' ''a'' = Own ''x'' \<and>
            get_member row' ''distribution_emails'' = Own ''u@x.com'' \<and>
            get_member row' ''constructor'' = Inherited \<and>
            get_prop row' ''a'' = ''x'' \<and>
            get_prop row' ''template_label'' = ''T'')"
proof -
  let ?row = "[(''a'', ''x''), (''template_label'', ''T'')]"
  let ?template = "[(''template_label'', ''T''), (''distribution_emails'', ''u@x.com''),
     (''additional_emails'', []), (''revu_session_invite'', []), (''template_values'', []),
     (''email_body_template'', []), (''attachments_urls'', []),
     (''email_subject_template'', []), (''subject_template_value'', []), (''a'', ''y''),
     (''constructor'', ''v'')]"
  have l: "get_prop ?row ''template_label'' = ''T''"
    by (simp add: get_prop_def)
  have t: "truthy (get_prop ?row ''template_label'')"
    by (simp add: l truthy_def)
  have g: "getTemplateByLabel (loadTemplateData ex_templates) (get_prop ?row ''template_label'')
             = Inr (Some ?template)"
    by (simp only: l ex_getTemplate)
  have m: "get_member ?row ''a'' = Own ''x''" "get_member ?row ''constructor'' = Inherited"
    "get_member ?row ''distribution_emails'' = Undefined"
    "get_member ?template ''a'' = Own ''y''" "get_member ?template ''constructor'' = Own ''v''"
    "get_member ?template ''distribution_emails'' = Own ''u@x.com''"
    by (simp_all add: get_member_def Object_prototype_def)
  have n: "''a'' \<notin> set Object_prototype"
    by (simp add: Object_prototype_def)
  from applyTemplateIfNeeded_merge [of ?row "loadTemplateData ex_templates" ?template] t g
  obtain row' where r: "applyTemplateIfNeeded (loadTemplateData ex_templates) ?row = Inr row'"
    and p: "\<And>k. get_member row' k =
                (case get_member ?template k of
                   Own v \<Rightarrow> if truthy v \<and> \<not> truthy_member (get_member ?row k)
                            then Own v else get_member ?row k
                 | _ \<Rightarrow> get_member ?row k)"
    and o: "\<And>k. k \<notin> set Object_prototype \<Longrightarrow>
                get_prop row' k =
                  (if truthy (get_prop ?row k) then get_prop ?row k else get_prop ?template k)"
    and q: "get_prop row' ''template_label'' = get_prop ?row ''template_label''"
    by blast
  have "get_member row' ''a'' = Own ''x''"
    by (subst p) (simp add: m truthy_member_def truthy_def)
  moreover have "get_member row' ''distribution_emails'' = Own ''u@x.com''"
    by (subst p) (simp add: m truthy_member_def truthy_def)
  moreover have "get_member row' ''constructor'' = Inherited"
    by (subst p) (simp add: m truthy_member_def truthy_def)
  moreover have "get_prop row' ''a'' = ''x''"
    using o [OF n] by (simp add: get_prop_def truthy_def)
  moreover have "get_prop row' ''template_label'' = ''T''"
    by (simp only: q l)
  ultimately show ?thesis
    using r t m n ex_getTemplate by (simp add: truthy_member_def truthy_def)
qed

subsection \<open>Evaluation rules\<close>

lemmas char_classes = is_space_def is_word_def is_digit_def is_alnum_def is_alnum_hyphen_def
  is_atom_char_def is_line_terminator_def in_range_def code_def atom_specials_def

lemmas lower_eval = toLowerCase_def toLowerCase_char_def is_upper_def in_range_def code_def
  char_of_def bit_Suc_0_iff

lemmas rx_forms = Lit_def LitI_def Plus_def Opt_def

subsection \<open>The attachment gate\<close>

lemma getAttachments_loop_oversized:
  assumes "extractFileId url = Inr fileId"
    and "DriveApp_getFileById P fileId = Some file"
    and "file_size file > MAX_ATTACHMENT_SIZE"
  shows "url \<in> set urls \<Longrightarrow> \<exists>e. fst (getAttachments_loop P urls acc) = Inl e"
proof (induction urls arbitrary: acc)
  case Nil
  then show ?case by simp
next
  case (Cons u urls)
  show ?case
  proof (cases "u = url")
    case True
    with assms show ?thesis by (simp add: isFileTooLarge_def)
  next
    case False
    with Cons.prems have "url \<in> set urls" by simp
    from Cons.IH [OF this] show ?thesis
      by (auto simp: split_beta split: sum.splits bool.splits)
  qed
qed

lemma getAttachments_loop_first_oversized:
  assumes "extractFileId url = Inr fileId"
    and "DriveApp_getFileById P fileId = Some file"
    and "file_size file > MAX_ATTACHMENT_SIZE"
  shows "\<forall>u \<in> set pre. within_limit P u \<Longrightarrow>
         fst (getAttachments_loop P (pre @ url # post) acc) = Inl (AttachmentTooLarge fileId)"
proof (induction pre arbitrary: acc)
  case Nil
  with assms show ?case by (simp add: isFileTooLarge_def)
next
  case (Cons u pre)
  from Cons.prems have u: "within_limit P u" and pre: "\<forall>u \<in> set pre. within_limit P u"
    by simp_all
  from u obtain i f where "extractFileId u = Inr i" "DriveApp_getFileById P i = Some f"
    "file_size f \<le> MAX_ATTACHMENT_SIZE"
    by (auto simp: within_limit_def split: sum.splits option.splits)
  with Cons.IH [OF pre] show ?case
    by (simp add: isFileTooLarge_def getFileBlob_def split_beta)
qed

lemma say_fields [simp]:
  "transport (say es w) = transport w" "history (say es w) = history w"
  "toSend (say es w) = toSend w" "trashed (say es w) = trashed w"
  "alerts (say es w) = alerts w" "templates (say es w) = templates w"
  by (simp_all add: say_def)

lemma trashFile_fields [simp]:
  "transport (trashFile P f w) = transport w" "history (trashFile P f w) = history w"
  "toSend (trashFile P f w) = toSend w" "alerts (trashFile P f w) = alerts w"
  by (simp_all add: trashFile_def)

lemma trashAttachments_fields [simp]:
  "transport (trashAttachments P row w) = transport w"
  "history (trashAttachments P row w) = history w"
  "toSend (trashAttachments P row w) = toSend w"
  "alerts (trashAttachments P row w) = alerts w"
proof -
  let ?f = "\<lambda>url w. case extractFileId url of
                     Inl e \<Rightarrow> say [LogError (''Error trashing file from URL '' @ url) e] w
                   | Inr fileId \<Rightarrow>
                       trashFile P fileId
                         (say [LogDebug (''Trashing file with fileId: '' @ fileId)] w)"
  have "transport (fold ?f urls w) = transport w \<and> history (fold ?f urls w) = history w \<and>
        toSend (fold ?f urls w) = toSend w \<and> alerts (fold ?f urls w) = alerts w" for urls
    by (induction urls arbitrary: w) (auto split: sum.splits)
  then show "transport (trashAttachments P row w) = transport w"
    "history (trashAttachments P row w) = history w"
    "toSend (trashAttachments P row w) = toSend w"
    "alerts (trashAttachments P row w) = alerts w"
    by (simp_all add: trashAttachments_def)
qed

lemma EmailUtils_sendEmail_sheets [simp]:
  "history (snd (EmailUtils_sendEmail P r s b a w)) = history w"
  "toSend (snd (EmailUtils_sendEmail P r s b a w)) = toSend w"
  "alerts (snd (EmailUtils_sendEmail P r s b a w)) = alerts w"
  by (simp_all add: EmailUtils_sendEmail_def Let_def)

lemma EmailBuilder_sendEmail_sheets [simp]:
  "history (snd (EmailBuilder_sendEmail P row w)) = history w"
  "toSend (snd (EmailBuilder_sendEmail P row w)) = toSend w"
  "alerts (snd (EmailBuilder_sendEmail P row w)) = alerts w"
  by (auto simp: EmailBuilder_sendEmail_def split_beta Let_def split: option.splits sum.splits)

lemma processRow_sheets:
  "history (snd (processRow P row w)) = history w"
  "toSend (snd (processRow P row w)) = toSend w"
  "alerts (snd (processRow P row w)) = alerts w"
  by (auto simp: processRow_def split: prod.splits bool.splits)

text \<open>
  C3, amended: a record with an attachment reference whose file is larger than
  \<open>MAX_ATTACHMENT_SIZE\<close> (21 MiB).  \<open>getAttachments\<close> throws, so \<open>sendEmail\<close> never returns
  \<open>true\<close> and hands nothing to \<open>GmailApp.sendEmail\<close>, whatever the other attachments
  are; \<open>sendEmails\<close> sends nothing for the row and leaves it in the pending sheet and
  out of the history.  What the processing fails with is the first failure it meets:
  when the recipients and the body are there and the references before this one are
  within the limit, it is the error \<open>Attachment file too large\<close> with the file
  identifier.
\<close>

theorem oversized_attachment_never_sent:
  assumes "truthy (get_prop row ''attachments_urls'')"
    and "url \<in> set (fileUrls row)"
    and "extractFileId url = Inr fileId"
    and "DriveApp_getFileById P fileId = Some file"
    and "file_size file > MAX_ATTACHMENT_SIZE"
  shows "(\<exists>e. fst (getAttachments P row) = Inl e) \<and>
         fst (EmailBuilder_sendEmail P row w) \<noteq> Inr True \<and>
         transport (snd (EmailBuilder_sendEmail P row w)) = transport w \<and>
         fst (processRow P row w) \<noteq> Inr True \<and>
         transport (snd (processRow P row w)) = transport w \<and>
         (mapRowToObject (Some (if i < length data then data ! i else [])) headers [] = Inr raw \<and>
          applyTemplateIfNeeded tm raw = Inr row \<longrightarrow>
            transport (sendEmails_row P tm headers data i w) = transport w \<and>
            history (sendEmails_row P tm headers data i w) = history w \<and>
            toSend (sendEmails_row P tm headers data i w) = toSend w) \<and>
         (\<forall>pre post recipients body.
            fileUrls row = pre @ url # post \<and> (\<forall>u \<in> set pre. within_limit P u) \<and>
            combineEmailAddresses [get_prop row ''distribution_emails'', get_prop row ''additional_emails''] = Some recipients \<and>
            fst (buildEmailBody P row) = Some body \<and> truthy body \<longrightarrow>
            fst (getAttachments P row) = Inl (AttachmentTooLarge fileId) \<and>
            fst (EmailBuilder_sendEmail P row w) = Inl (AttachmentTooLarge fileId))"
proof -
  from getAttachments_loop_oversized [OF assms(3-5) assms(2)]
  obtain e where e: "fst (getAttachments_loop P (fileUrls row) []) = Inl e" by blast
  then have ga: "fst (getAttachments P row) = Inl e"
    using assms(1) by (simp add: getAttachments_def split_beta)
  have se: "fst (EmailBuilder_sendEmail P row w) \<noteq> Inr True \<and>
         transport (snd (EmailBuilder_sendEmail P row w)) = transport w" for w
    using ga by (auto simp: EmailBuilder_sendEmail_def split: option.splits prod.splits sum.splits)
  have pr: "fst (processRow P row w) \<noteq> Inr True \<and>
         transport (snd (processRow P row w)) = transport w" for w
    using se [of "say (snd (validateRow row)) w"]
    by (auto simp: processRow_def split: prod.splits bool.splits)
  have step: "transport (sendEmails_row P tm headers data i w) = transport w \<and>
            history (sendEmails_row P tm headers data i w) = history w \<and>
            toSend (sendEmails_row P tm headers data i w) = toSend w"
    if a: "mapRowToObject (Some (if i < length data then data ! i else [])) headers [] = Inr raw \<and>
          applyTemplateIfNeeded tm raw = Inr row"
  proof -
    obtain r w1 where p: "processRow P row w = (r, w1)"
      by (cases "processRow P row w")
    from pr [of w] p have r: "r \<noteq> Inr True" and t: "transport w1 = transport w"
      by simp_all
    from processRow_sheets [of P row w] p
    have h: "history w1 = history w" and s: "toSend w1 = toSend w"
      by simp_all
    from r have "(\<exists>e. r = Inl e) \<or> r = Inr False"
      by (cases r) auto
    with a p t h s show ?thesis
      by (auto simp: sendEmails_row_def Let_def)
  qed
  have first: "fst (getAttachments P row) = Inl (AttachmentTooLarge fileId) \<and>
            fst (EmailBuilder_sendEmail P row w) = Inl (AttachmentTooLarge fileId)"
    if "fileUrls row = pre @ url # post" "\<forall>u \<in> set pre. within_limit P u"
      "combineEmailAddresses [get_prop row ''distribution_emails'', get_prop row ''additional_emails''] = Some recipients"
      "fst (buildEmailBody P row) = Some body" "truthy body" for pre post recipients body
  proof -
    from getAttachments_loop_first_oversized [OF assms(3-5) that(2), of post "[]"] that(1)
    have "fst (getAttachments_loop P (fileUrls row) []) = Inl (AttachmentTooLarge fileId)" by simp
    then have g: "fst (getAttachments P row) = Inl (AttachmentTooLarge fileId)"
      using assms(1) by (simp add: getAttachments_def split_beta)
    with that(3-5) show ?thesis
      by (auto simp: EmailBuilder_sendEmail_def split: option.splits prod.splits sum.splits)
  qed
  from ga se pr step first show ?thesis by blast
qed


lemma ex_fileUrls: "fileUrls ex_row = [ex_small_id, ex_large_id]"
  by (simp add: fileUrls_def ex_row_def ex_headers_def ex_cells_def get_prop_def
      String_split_def urlSeparatorRegex_def rx_forms rx_ends.simps(6) ex_small_id_def
      ex_large_id_def trim_def char_classes)

lemma ex_extract_large: "extractFileId ex_large_id = Inr ex_large_id"
  by (simp add: extractFileId_def String_match_def fileIdRegex_def eval_nat_numeral
      rx_forms rx_ends.simps(6) ex_large_id_def char_classes matched_def truthy_def)

lemma ex_extract_small: "extractFileId ex_small_id = Inr ex_small_id"
  by (simp add: extractFileId_def String_match_def fileIdRegex_def eval_nat_numeral
      rx_forms rx_ends.simps(6) ex_small_id_def char_classes matched_def truthy_def)

lemma ex_extract_body: "extractFileId ex_body_id = Inr ex_body_id"
  by (simp add: extractFileId_def String_match_def fileIdRegex_def eval_nat_numeral
      rx_forms rx_ends.simps(6) ex_body_id_def char_classes matched_def truthy_def)

lemma ex_ids_differ: "ex_large_id \<noteq> ex_body_id" "ex_large_id \<noteq> ex_small_id" "ex_small_id \<noteq> ex_body_id"
  by (simp_all add: ex_large_id_def ex_body_id_def ex_small_id_def)

lemma ex_recipients: "combineEmailAddresses [''u@x.com'', []] = Some ''u@x.com''"
  by (simp add: combineEmailAddresses_def uniqueEmails_def parseEmailAddresses_def truthy_def
      String_replace_def commentLineRegex_def lower_eval emailRegex_exec_loop.simps emailRegex_def
      atSeparator_def dotSeparator_def domainLabel_def rx_forms rx_ends.simps(6) char_classes
      matched_def startsWith_def atDotRegex_def Set_of_def)

lemma ex_row_props:
  "get_prop ex_row ''distribution_emails'' = ''u@x.com''"
  "get_prop ex_row ''additional_emails'' = []"
  "get_prop ex_row ''email_body_template'' = ex_body_id"
  "get_prop ex_row ''attachments_urls'' = ex_small_id @ '', '' @ ex_large_id"
  "get_prop ex_row ''email_subject_template'' = ''<?= oops( ?>''"
  "get_prop ex_row ''template_values'' = []"
  "get_prop ex_row ''revu_session_invite'' = []"
  "get_prop ex_row ''template_label'' = []"
  by (simp_all add: ex_row_def ex_headers_def ex_cells_def get_prop_def)

lemma ex_body: "fst (buildEmailBody ex_platform ex_row) = Some ''<p><?= n ?></p>''"
  by (simp add: buildEmailBody_def getFileContentFromUrl_def ex_row_props ex_extract_body
      ex_platform_def getTemplateValues_def sanitizeJsonText_def truthy_def parseSessionId_def
      ex_values_def)

lemma ex_headerMap:
  "mapHeadersToIndices ex_headers =
     [(''distribution_emails'', 0), (''email_body_template'', 1), (''attachments_urls'', 2),
      (''email_subject_template'', 3)]"
  by (simp add: mapHeadersToIndices_def ex_headers_def object_eval upt_rec)

lemma ex_mapRow_cells:
  "mapRowToObject (Some [c0, c1, c2, c3]) (mapHeadersToIndices ex_headers) []
     = Inr (zip ex_headers [c0, c1, c2, c3])"
  unfolding ex_headerMap
  by (simp add: mapRowToObject_def ex_headers_def object_eval)

lemma ex_mapRow: "mapRowToObject (Some ex_cells) (mapHeadersToIndices ex_headers) [] = Inr ex_row"
  unfolding ex_cells_def ex_row_def by (rule ex_mapRow_cells)

lemma ex_no_template: "applyTemplateIfNeeded tm ex_row = Inr ex_row"
  by (simp add: applyTemplateIfNeeded_def ex_row_props truthy_def)

theorem oversized_attachment_never_sent_witness:
  "truthy (get_prop ex_row ''attachments_urls'') \<and>
   ex_large_id \<in> set (fileUrls ex_row) \<and>
   extractFileId ex_large_id = Inr ex_large_id \<and>
   DriveApp_getFileById ex_platform ex_large_id
     = Some \<lparr>file_size = 22 * 1024 * 1024, file_blob = ''large''\<rparr> \<and>
   file_size \<lparr>file_size = 22 * 1024 * 1024, file_blob = ''large''\<rparr> > MAX_ATTACHMENT_SIZE \<and>
   fileUrls ex_row = [ex_small_id] @ ex_large_id # [] \<and>
   within_limit ex_platform ex_small_id \<and>
   mapRowToObject (Some (if 1 < length [ex_headers, ex_cells] then [ex_headers, ex_cells] ! 1 else []))
     (mapHeadersToIndices ex_headers) [] = Inr ex_row \<and>
   applyTemplateIfNeeded (loadTemplateData ex_templates) ex_row = Inr ex_row \<and>
   fst (getAttachments ex_platform ex_row) = Inl (AttachmentTooLarge ex_large_id) \<and>
   fst (EmailBuilder_sendEmail ex_platform ex_row ex_world) = Inl (AttachmentTooLarge ex_large_id) \<and>
   transport (snd (EmailBuilder_sendEmail ex_platform ex_row ex_world)) = [] \<and>
   transport (sendEmails_row ex_platform (loadTemplateData ex_templates)
                (mapHeadersToIndices ex_headers) [ex_headers, ex_cells] 1 ex_world) = [] \<and>
   history (sendEmails_row ex_platform (loadTemplateData ex_templates)
                (mapHeadersToIndices ex_headers) [ex_headers, ex_cells] 1 ex_world) = [] \<and>
   toSend (sendEmails_row ex_platform (loadTemplateData ex_templates)
                (mapHeadersToIndices ex_headers) [ex_headers, ex_cells] 1 ex_world) = toSend ex_world"
proof -
  let ?file = "\<lparr>file_size = 22 * 1024 * 1024, file_blob = ''large''\<rparr>"
  have h1: "truthy (get_prop ex_row ''attachments_urls'')"
    by (simp add: ex_row_props truthy_def)
  have h2: "ex_large_id \<in> set (fileUrls ex_row)"
    by (simp add: ex_fileUrls)
  have h4: "DriveApp_getFileById ex_platform ex_large_id = Some ?file"
    by (simp add: ex_platform_def ex_ids_differ)
  have h5: "file_size ?file > MAX_ATTACHMENT_SIZE"
    by (simp add: MAX_ATTACHMENT_SIZE_def)
  have h6: "fileUrls ex_row = [ex_small_id] @ ex_large_id # []"
    by (simp add: ex_fileUrls)
  have h7: "\<forall>u \<in> set [ex_small_id]. within_limit ex_platform u"
    by (simp add: within_limit_def ex_extract_small ex_platform_def ex_ids_differ
        MAX_ATTACHMENT_SIZE_def)
  have h8: "combineEmailAddresses [get_prop ex_row ''distribution_emails'',
              get_prop ex_row ''additional_emails''] = Some ''u@x.com''"
    by (simp add: ex_row_props ex_recipients)
  have h9: "truthy ''<p><?= n ?></p>''"
    by (simp add: truthy_def)
  have h10: "mapRowToObject
       (Some (if 1 < length [ex_headers, ex_cells] then [ex_headers, ex_cells] ! 1 else []))
       (mapHeadersToIndices ex_headers) [] = Inr ex_row"
    by (simp add: ex_mapRow)
  have h11: "applyTemplateIfNeeded (loadTemplateData ex_templates) ex_row = Inr ex_row"
    by (rule ex_no_template)
  note t = oversized_attachment_never_sent [OF h1 h2 ex_extract_large h4 h5,
      of ex_world 1 "[ex_headers, ex_cells]" "mapHeadersToIndices ex_headers" ex_row
         "loadTemplateData ex_templates"]
  from t h10 h11 have
    "transport (snd (EmailBuilder_sendEmail ex_platform ex_row ex_world)) = transport ex_world"
    "transport (sendEmails_row ex_platform (loadTemplateData ex_templates)
                (mapHeadersToIndices ex_headers) [ex_headers, ex_cells] 1 ex_world) = transport ex_world"
    "history (sendEmails_row ex_platform (loadTemplateData ex_templates)
                (mapHeadersToIndices ex_headers) [ex_headers, ex_cells] 1 ex_world) = history ex_world"
    "toSend (sendEmails_row ex_platform (loadTemplateData ex_templates)
                (mapHeadersToIndices ex_headers) [ex_headers, ex_cells] 1 ex_world) = toSend ex_world"
    by blast+
  moreover from t h6 h7 h8 ex_body h9 have
    "fst (getAttachments ex_platform ex_row) = Inl (AttachmentTooLarge ex_large_id) \<and>
     fst (EmailBuilder_sendEmail ex_platform ex_row ex_world) = Inl (AttachmentTooLarge ex_large_id)"
    by blast
  moreover have "transport ex_world = []" "history ex_world = []"
    by (simp_all add: ex_world_def)
  ultimately show ?thesis
    using h1 h2 ex_extract_large h4 h5 h6 h7 h10 h11 by simp
qed

lemma ex_row_values:
  "getTemplateValues ex_platform (zip ex_headers [c0, c1, c2, c3])
     = (Inr \<lparr>parsed_values = None, sessionId = None\<rparr>, [])"
  by (simp add: getTemplateValues_def ex_headers_def get_prop_def sanitizeJsonText_def truthy_def
      parseSessionId_def)

lemma ex_row_body:
  "fst (buildEmailBody ex_platform (zip ex_headers [c0, ex_body_id, c2, c3]))
     = Some ''<p><?= n ?></p>''"
proof -
  have "get_prop (zip ex_headers [c0, ex_body_id, c2, c3]) ''email_body_template'' = ex_body_id"
    by (simp add: ex_headers_def get_prop_def)
  moreover have "fst (getFileContentFromUrl ex_platform ex_body_id) = Inr ''<p><?= n ?></p>''"
    by (simp add: getFileContentFromUrl_def ex_extract_body ex_platform_def)
  then obtain l where "getFileContentFromUrl ex_platform ex_body_id = (Inr ''<p><?= n ?></p>'', l)"
    by (cases "getFileContentFromUrl ex_platform ex_body_id") simp
  moreover have "HtmlService_evaluate ex_platform ''<p><?= n ?></p>''
                   \<lparr>parsed_values = None, sessionId = None\<rparr> = Some ''<p><?= n ?></p>''"
    by (simp add: ex_platform_def)
  ultimately show ?thesis
    by (simp add: buildEmailBody_def ex_row_values)
qed

lemma ex_notes_fileUrls: "fileUrls (zip ex_headers ex_cells_notes) = [''notes.pdf'', ex_large_id]"
  by (simp add: fileUrls_def ex_headers_def ex_cells_notes_def get_prop_def
      String_split_def urlSeparatorRegex_def rx_forms rx_ends.simps(6)
      ex_large_id_def trim_def char_classes)

lemma ex_extract_notes: "extractFileId ''notes.pdf'' = Inl (InvalidDriveUrl ''notes.pdf'')"
  by (simp add: extractFileId_def String_match_def fileIdRegex_def eval_nat_numeral
      rx_forms rx_ends.simps(6) char_classes matched_def truthy_def)

text \<open>
  C3, as stated: every record with a reference to a file above the limit fails as
  \<open>AttachmentTooLarge\<close>.  The record fails with the first failure the processing meets.
  When a reference before the large one is no Drive URL, \<open>getAttachments\<close> throws
  \<open>Invalid Google Drive URL\<close> for that one; and when the recipient text holds no address
  \<open>sendEmail\<close> returns \<open>false\<close> before it looks at the attachments, and nothing is thrown.
\<close>

theorem oversized_attachment_other_failure_counterexample:
  "ex_large_id \<in> set (fileUrls (zip ex_headers ex_cells_notes)) \<and>
   ex_large_id \<in> set (fileUrls (zip ex_headers ex_cells_unparsed)) \<and>
   extractFileId ex_large_id = Inr ex_large_id \<and>
   DriveApp_getFileById ex_platform ex_large_id
     = Some \<lparr>file_size = 22 * 1024 * 1024, file_blob = ''large''\<rparr> \<and>
   22 * 1024 * 1024 > MAX_ATTACHMENT_SIZE \<and>
   fst (processRow ex_platform (zip ex_headers ex_cells_notes) ex_world)
     = Inl (InvalidDriveUrl ''notes.pdf'') \<and>
   processRow ex_platform (zip ex_headers ex_cells_unparsed) ex_world
     = (Inr False, ex_world\<lparr>logged := [LogDebug ''No valid email addresses found.'']\<rparr>)"
proof -
  let ?n = "zip ex_headers ex_cells_notes" and ?u = "zip ex_headers ex_cells_unparsed"
  have pn: "get_prop ?n ''distribution_emails'' = ''u@x.com''"
    "get_prop ?n ''additional_emails'' = []" "get_prop ?n ''email_body_template'' = ex_body_id"
    "get_prop ?n ''attachments_urls'' = ''notes.pdf, '' @ ex_large_id"
    by (simp_all add: ex_headers_def ex_cells_notes_def get_prop_def)
  have pu: "get_prop ?u ''distribution_emails'' = ''see notes''"
    "get_prop ?u ''additional_emails'' = []" "get_prop ?u ''email_body_template'' = ex_body_id"
    "get_prop ?u ''attachments_urls'' = ex_large_id"
    by (simp_all add: ex_headers_def ex_cells_unparsed_def get_prop_def)
  have fu: "fileUrls ?u = [ex_large_id]"
    by (simp add: fileUrls_def pu)
       (simp add: String_split_def urlSeparatorRegex_def rx_forms rx_ends.simps(6)
        ex_large_id_def trim_def char_classes)
  have h4: "DriveApp_getFileById ex_platform ex_large_id
              = Some \<lparr>file_size = 22 * 1024 * 1024, file_blob = ''large''\<rparr>"
    by (simp add: ex_platform_def ex_ids_differ)
  have h5: "22 * 1024 * 1024 > MAX_ATTACHMENT_SIZE"
    by (simp add: MAX_ATTACHMENT_SIZE_def)
  have vn: "validateRow ?n = (True, [])"
    by (simp add: validateRow_def pn truthy_def ex_body_id_def)
  have bn: "fst (buildEmailBody ex_platform ?n) = Some ''<p><?= n ?></p>''"
    unfolding ex_cells_notes_def by (rule ex_row_body)
  have an: "fst (getAttachments ex_platform ?n) = Inl (InvalidDriveUrl ''notes.pdf'')"
    by (simp add: getAttachments_def ex_notes_fileUrls ex_extract_notes pn truthy_def)
  have sn: "fst (EmailBuilder_sendEmail ex_platform ?n w) = Inl (InvalidDriveUrl ''notes.pdf'')"
    for w
    using bn an
    by (auto simp: EmailBuilder_sendEmail_def pn ex_recipients truthy_def
        split: prod.splits option.splits sum.splits)
  have rn: "fst (processRow ex_platform ?n ex_world) = Inl (InvalidDriveUrl ''notes.pdf'')"
    by (simp add: processRow_def vn sn)
  have vu: "validateRow ?u = (True, [])"
    by (simp add: validateRow_def pu truthy_def ex_body_id_def)
  have cu: "combineEmailAddresses [''see notes'', []] = None"
    by (simp add: combineEmailAddresses_def uniqueEmails_def Set_of_def truthy_def
        parseEmailAddresses_def String_replace_def commentLineRegex_def lower_eval
        emailRegex_exec_loop.simps emailRegex_def atSeparator_def dotSeparator_def
        domainLabel_def rx_forms rx_ends.simps(6) char_classes matched_def startsWith_def
        atDotRegex_def)
  have ru: "processRow ex_platform ?u ex_world
     = (Inr False, ex_world\<lparr>logged := [LogDebug ''No valid email addresses found.'']\<rparr>)"
    by (simp add: processRow_def vu EmailBuilder_sendEmail_def pu cu say_def ex_world_def)
  show ?thesis
    using rn ru h4 h5 ex_extract_large by (simp add: ex_notes_fileUrls fu)
qed

subsection \<open>Validation\<close>

lemma EmailUtils_sendEmail_log_irrelevant:
  "fst (EmailUtils_sendEmail P r s b a w) = GmailApp_accepts P \<lparr>mail_recipients = r, mail_subject = s, mail_htmlBody = b,
               mail_attachments = a, mail_from = FROM_EMAIL\<rparr>"
  "transport (snd (EmailUtils_sendEmail P r s b a w)) = transport w @ [\<lparr>mail_recipients = r, mail_subject = s, mail_htmlBody = b,
               mail_attachments = a, mail_from = FROM_EMAIL\<rparr>]"
  by (simp_all add: EmailUtils_sendEmail_def Let_def)

lemma EmailBuilder_sendEmail_sent:
  assumes "combineEmailAddresses [get_prop row ''distribution_emails'',
                                  get_prop row ''additional_emails''] = Some recipients"
    and "fst (buildEmailBody P row) = Some body" and "truthy body"
    and "fst (getAttachments P row) = Inr attachments"
    and "fst (getFinalSubject P row) = subject"
  shows "fst (EmailBuilder_sendEmail P row w)
           = Inr (GmailApp_accepts P \<lparr>mail_recipients = recipients, mail_subject = subject,
                    mail_htmlBody = body, mail_attachments = attachments,
                    mail_from = FROM_EMAIL\<rparr>)"
    and "transport (snd (EmailBuilder_sendEmail P row w))
           = transport w @ [\<lparr>mail_recipients = recipients, mail_subject = subject,
                              mail_htmlBody = body, mail_attachments = attachments,
                              mail_from = FROM_EMAIL\<rparr>]"
  using assms
  by (auto simp: EmailBuilder_sendEmail_def split_beta Let_def
      EmailUtils_sendEmail_log_irrelevant split: option.splits sum.splits prod.splits)

lemma sendEmails_row_sent:
  assumes "\<not> list_all (\<lambda>cell. \<not> truthy cell) (if i < length data then data ! i else [])"
    and "mapRowToObject (Some (if i < length data then data ! i else [])) headers [] = Inr raw"
    and "applyTemplateIfNeeded tm raw = Inr row"
    and "fst (processRow P row w) = Inr True"
  shows "transport (sendEmails_row P tm headers data i w) = transport (snd (processRow P row w))"
    and "history (sendEmails_row P tm headers data i w)
           = history w @ [(if i < length data then data ! i else []) @ [new_Date P]]"
    and "toSend (sendEmails_row P tm headers data i w) = deleteRow (i + 1) (toSend w)"
proof -
  obtain w1 where p: "processRow P row w = (Inr True, w1)"
    using assms(4) by (cases "processRow P row w") simp
  from processRow_sheets [of P row w] p
  have h: "history w1 = history w" and s: "toSend w1 = toSend w"
    by simp_all
  show "transport (sendEmails_row P tm headers data i w) = transport (snd (processRow P row w))"
    and "history (sendEmails_row P tm headers data i w)
           = history w @ [(if i < length data then data ! i else []) @ [new_Date P]]"
    and "toSend (sendEmails_row P tm headers data i w) = deleteRow (i + 1) (toSend w)"
    using assms(1-3) p h s
    by (simp_all add: sendEmails_row_def moveRowToHistory_def)
qed

lemma ex_label_headerMap:
  "mapHeadersToIndices ex_label_headers =
     [(''template_label'', 0), (''distribution_emails'', 1), (''email_body_template'', 2)]"
  by (simp add: mapHeadersToIndices_def ex_label_headers_def object_eval upt_rec)

lemma ex_mapRow_labelled:
  "mapRowToObject (Some [c0, c1, c2]) (mapHeadersToIndices ex_label_headers) []
     = Inr [(''template_label'', c0), (''distribution_emails'', c1), (''email_body_template'', c2)]"
  unfolding ex_label_headerMap
  by (simp add: mapRowToObject_def object_eval)

lemma ex_merge_T:
  "applyTemplateIfNeeded (loadTemplateData ex_templates)
     [(''template_label'', ''T''), (''distribution_emails'', []), (''email_body_template'', b)]
     = Inr [(''template_label'', ''T''), (''distribution_emails'', ''u@x.com''),
            (''email_body_template'', b), (''a'', ''y'')]"
  by (simp add: applyTemplateIfNeeded_def get_prop_def truthy_def ex_getTemplate
      truthy_member_def object_eval)

lemma ex_merge_Z:
  "applyTemplateIfNeeded (loadTemplateData ex_templates)
     [(''template_label'', ''Z''), (''distribution_emails'', []), (''email_body_template'', b)]
     = Inl (TemplateNotFound ''Z'' [''T''])"
  unfolding ex_loadTemplateData
  by (simp add: applyTemplateIfNeeded_def get_prop_def truthy_def getTemplateByLabel_def
      getAvailableTemplates_def object_eval)

lemma ex_body_content:
  "fst (getFileContentFromUrl ex_platform ex_body_id) = Inr ''<p><?= n ?></p>''"
  by (simp add: getFileContentFromUrl_def ex_extract_body ex_platform_def)

lemma ex_evaluate_literal:
  "HtmlService_evaluate ex_platform ''<p><?= n ?></p>'' \<lparr>parsed_values = None, sessionId = None\<rparr>
     = Some ''<p><?= n ?></p>''"
  by (simp add: ex_platform_def)

text \<open>
  C4, as stated: every pending record with both recipient fields empty is skipped in
  silence.  A record is validated after the defaults of the template it names have been
  merged in: the record of \<open>ex_cells_defaults\<close> has no recipient of its own, takes the
  recipient of the template \<open>T\<close>, is sent, appended to the history and deleted from the
  pending sheet.  And for the record of \<open>ex_cells_missing\<close>, which names a template that
  does not exist, the merge throws: an error is logged and an alert is shown.
\<close>

theorem validation_after_merge_counterexample:
  "get_prop (zip ex_label_headers ex_cells_defaults) ''distribution_emails'' = [] \<and>
   get_prop (zip ex_label_headers ex_cells_defaults) ''additional_emails'' = [] \<and>
   transport (sendEmails ex_platform (ex_world\<lparr>toSend := [ex_label_headers, ex_cells_defaults]\<rparr>))
     = [\<lparr>mail_recipients = ''u@x.com'', mail_subject = DEFAULT_SUBJECT,
         mail_htmlBody = ''<p><?= n ?></p>'', mail_attachments = [],
         mail_from = FROM_EMAIL\<rparr>] \<and>
   history (sendEmails ex_platform (ex_world\<lparr>toSend := [ex_label_headers, ex_cells_defaults]\<rparr>))
     = [ex_cells_defaults @ [''2025-01-01T00:00:00Z'']] \<and>
   toSend (sendEmails ex_platform (ex_world\<lparr>toSend := [ex_label_headers, ex_cells_defaults]\<rparr>))
     = [ex_label_headers] \<and>
   get_prop (zip ex_label_headers ex_cells_missing) ''distribution_emails'' = [] \<and>
   get_prop (zip ex_label_headers ex_cells_missing) ''additional_emails'' = [] \<and>
   sendEmails ex_platform (ex_world\<lparr>toSend := [ex_label_headers, ex_cells_missing]\<rparr>)
     = ex_world
         \<lparr>toSend := [ex_label_headers, ex_cells_missing],
          logged := [LogError ''Template error in row 2'' (TemplateNotFound ''Z'' [''T''])],
          alerts := [''Error with template in row 2: Template '' @ [DQUOTE] @ ''Z'' @ [DQUOTE]
                     @ '' not found in the distribution_templates sheet. Available templates: T'']\<rparr>"
proof -
  let ?w = "ex_world\<lparr>toSend := [ex_label_headers, ex_cells_defaults]\<rparr>"
  let ?tm = "loadTemplateData ex_templates"
  let ?hm = "mapHeadersToIndices ex_label_headers"
  let ?data = "[ex_label_headers, ex_cells_defaults]"
  let ?raw = "[(''template_label'', ''T''), (''distribution_emails'', []),
               (''email_body_template'', ex_body_id)]"
  let ?row = "[(''template_label'', ''T''), (''distribution_emails'', ''u@x.com''),
               (''email_body_template'', ex_body_id), (''a'', ''y'')]"
  let ?m = "\<lparr>mail_recipients = ''u@x.com'', mail_subject = DEFAULT_SUBJECT,
         mail_htmlBody = ''<p><?= n ?></p>'', mail_attachments = [],
         mail_from = FROM_EMAIL\<rparr>"
  have e: "sendEmails ex_platform (ex_world\<lparr>toSend := [h, c]\<rparr>)
             = sendEmails_row ex_platform ?tm (mapHeadersToIndices h) [h, c] 1
                 (ex_world\<lparr>toSend := [h, c]\<rparr>)" for h c
    by (simp add: sendEmails_def ex_world_def Let_def)
  have ne: "\<not> list_all (\<lambda>cell. \<not> truthy cell) (if 1 < length ?data then ?data ! 1 else [])"
    by (simp add: ex_cells_defaults_def truthy_def)
  have mr: "mapRowToObject (Some (if 1 < length ?data then ?data ! 1 else [])) ?hm [] = Inr ?raw"
    by (simp add: ex_cells_defaults_def ex_mapRow_labelled)
  have pr: "get_prop ?row ''distribution_emails'' = ''u@x.com''"
    "get_prop ?row ''additional_emails'' = []"
    "get_prop ?row ''email_body_template'' = ex_body_id"
    "get_prop ?row ''attachments_urls'' = []" "get_prop ?row ''email_subject_template'' = []"
    "get_prop ?row ''template_values'' = []" "get_prop ?row ''revu_session_invite'' = []"
    by (simp_all add: get_prop_def)
  have nb: "ex_body_id \<noteq> []"
    by (simp add: ex_body_id_def)
  have v: "validateRow ?row = (True, [])"
    by (simp add: validateRow_def pr truthy_def nb)
  have tv: "getTemplateValues ex_platform ?row
              = (Inr \<lparr>parsed_values = None, sessionId = None\<rparr>, [])"
    by (simp add: getTemplateValues_def pr sanitizeJsonText_def truthy_def parseSessionId_def)
  obtain l where "getFileContentFromUrl ex_platform ex_body_id = (Inr ''<p><?= n ?></p>'', l)"
    using ex_body_content by (cases "getFileContentFromUrl ex_platform ex_body_id") simp
  then have b: "fst (buildEmailBody ex_platform ?row) = Some ''<p><?= n ?></p>''"
    by (simp add: buildEmailBody_def pr tv ex_evaluate_literal)
  have a: "fst (getAttachments ex_platform ?row) = Inr []"
    by (simp add: getAttachments_def pr truthy_def)
  have su: "fst (getFinalSubject ex_platform ?row) = DEFAULT_SUBJECT"
    by (simp add: getFinalSubject_def pr truthy_def)
  have r: "combineEmailAddresses [get_prop ?row ''distribution_emails'',
             get_prop ?row ''additional_emails''] = Some ''u@x.com''"
    by (simp add: pr ex_recipients)
  have tb: "truthy ''<p><?= n ?></p>''"
    by (simp add: truthy_def)
  have acc: "GmailApp_accepts ex_platform m" for m
    by (simp add: ex_platform_def)
  have p1: "fst (processRow ex_platform ?row ?w) = Inr True"
    using EmailBuilder_sendEmail_sent(1) [OF r b tb a su] acc
    by (simp add: processRow_def v)
  have p2: "transport (snd (processRow ex_platform ?row ?w)) = [?m]"
    using EmailBuilder_sendEmail_sent(2) [OF r b tb a su]
    by (simp add: processRow_def v say_def ex_world_def)
  note s = sendEmails_row_sent [OF ne mr ex_merge_T p1]
  have t1: "transport (sendEmails ex_platform ?w) = [?m]"
    unfolding e s(1) by (rule p2)
  have t2: "history (sendEmails ex_platform ?w) = [ex_cells_defaults @ [''2025-01-01T00:00:00Z'']]"
    unfolding e s(2) by (simp add: ex_world_def ex_platform_def)
  have t3: "toSend (sendEmails ex_platform ?w) = [ex_label_headers]"
    unfolding e s(3) by (simp add: deleteRow_def)
  have "show_nat 2 = ''2''"
    by (subst show_nat.simps) (simp add: digits_def)
  then have n2: "show_nat (Suc (Suc 0)) = ''2''" "show_nat 2 = ''2''"
    by (simp_all add: numeral_2_eq_2)
  have t4: "sendEmails ex_platform (ex_world\<lparr>toSend := [ex_label_headers, ex_cells_missing]\<rparr>)
     = ex_world
         \<lparr>toSend := [ex_label_headers, ex_cells_missing],
          logged := [LogError ''Template error in row 2'' (TemplateNotFound ''Z'' [''T''])],
          alerts := [''Error with template in row 2: Template '' @ [DQUOTE] @ ''Z'' @ [DQUOTE]
                     @ '' not found in the distribution_templates sheet. Available templates: T'']\<rparr>"
    unfolding e
    by (simp add: sendEmails_row_def ex_cells_missing_def ex_mapRow_labelled ex_merge_Z truthy_def
        say_def ex_world_def error_message_def n2)
  show ?thesis
    using t1 t2 t3 t4
    by (simp add: ex_label_headers_def ex_cells_defaults_def ex_cells_missing_def get_prop_def)
qed

text \<open>
  C4, amended: a record whose two recipient fields are both empty, or whose
  \<open>email_body_template\<close> is empty, once the defaults of the template it names have been
  merged in; so a record that names no template, as it stands in the pending sheet.
  \<open>processRow\<close> returns \<open>false\<close> without an exception and changes nothing but the log, to
  which it adds one debug line; the pass of \<open>sendEmails\<close> over the row leaves the world as
  it was but for debug lines in the log: nothing is handed to the transport, the history
  and the pending sheet are untouched, no error is logged and no alert is shown.
\<close>

theorem validation_failure_silent_skip:
  assumes "(\<not> truthy (get_prop row ''distribution_emails'') \<and>
            \<not> truthy (get_prop row ''additional_emails'')) \<or>
           \<not> truthy (get_prop row ''email_body_template'')"
  shows "(\<exists>msg. processRow P row w = (Inr False, w\<lparr>logged := logged w @ [LogDebug msg]\<rparr>)) \<and>
         (mapRowToObject (Some (if i < length data then data ! i else [])) headers [] = Inr raw \<and>
          applyTemplateIfNeeded tm raw = Inr row \<longrightarrow>
          (\<exists>msgs. sendEmails_row P tm headers data i w
                    = w\<lparr>logged := logged w @ map LogDebug msgs\<rparr>)) \<and>
         (mapRowToObject (Some (if i < length data then data ! i else [])) headers [] = Inr row \<and>
          \<not> truthy (get_prop row ''template_label'') \<longrightarrow>
          (\<exists>msgs. sendEmails_row P tm headers data i w
                    = w\<lparr>logged := logged w @ map LogDebug msgs\<rparr>))"
proof -
  from assms have "\<exists>msg. validateRow row = (False, [LogDebug msg])"
    by (auto simp: validateRow_def)
  then obtain msg where v: "validateRow row = (False, [LogDebug msg])" ..
  then have p: "processRow P row w = (Inr False, w\<lparr>logged := logged w @ [LogDebug msg]\<rparr>)"
    by (simp add: processRow_def say_def)
  have m: "\<exists>msgs. sendEmails_row P tm headers data i w = w\<lparr>logged := logged w @ map LogDebug msgs\<rparr>"
    if a: "mapRowToObject (Some (if i < length data then data ! i else [])) headers [] = Inr raw"
      "applyTemplateIfNeeded tm raw = Inr row" for raw
  proof (cases "list_all (\<lambda>cell. \<not> truthy cell) (if i < length data then data ! i else [])")
    case True
    then have "sendEmails_row P tm headers data i w
        = w\<lparr>logged := logged w @ map LogDebug [''Skipping empty row '' @ show_nat (i + 1)]\<rparr>"
      by (simp add: sendEmails_row_def say_def)
    then show ?thesis by blast
  next
    case False
    with a p have "sendEmails_row P tm headers data i w
        = w\<lparr>logged := logged w @ map LogDebug [msg, ''Row '' @ show_nat (i + 1)
                                @ '' skipped due to validation or processing failure.'']\<rparr>"
      by (simp add: sendEmails_row_def say_def Let_def)
    then show ?thesis by blast
  qed
  have n: "\<exists>msgs. sendEmails_row P tm headers data i w = w\<lparr>logged := logged w @ map LogDebug msgs\<rparr>"
    if "mapRowToObject (Some (if i < length data then data ! i else [])) headers [] = Inr row"
      "\<not> truthy (get_prop row ''template_label'')"
  proof -
    from that(2) have "applyTemplateIfNeeded tm row = Inr row"
      by (simp add: applyTemplateIfNeeded_def)
    with that(1) show ?thesis by (rule m)
  qed
  from p m n show ?thesis by blast
qed

theorem validation_failure_silent_skip_witness:
  "\<not> truthy (get_prop [(''template_label'', ''T''), (''distribution_emails'', ''u@x.com''),
                         (''email_body_template'', []), (''a'', ''y'')] ''email_body_template'') \<and>
   mapRowToObject
     (Some (if 1 < length [ex_label_headers, ex_cells_no_body]
            then [ex_label_headers, ex_cells_no_body] ! 1 else []))
     (mapHeadersToIndices ex_label_headers) []
     = Inr [(''template_label'', ''T''), (''distribution_emails'', []),
            (''email_body_template'', [])] \<and>
   applyTemplateIfNeeded (loadTemplateData ex_templates)
     [(''template_label'', ''T''), (''distribution_emails'', []), (''email_body_template'', [])]
     = Inr [(''template_label'', ''T''), (''distribution_emails'', ''u@x.com''),
            (''email_body_template'', []), (''a'', ''y'')] \<and>
   (\<exists>msgs. sendEmails_row ex_platform (loadTemplateData ex_templates)
              (mapHeadersToIndices ex_label_headers) [ex_label_headers, ex_cells_no_body] 1 ex_world
            = ex_world\<lparr>logged := logged ex_world @ map LogDebug msgs\<rparr>) \<and>
   \<not> truthy (get_prop (zip ex_headers ex_cells_no_recipient) ''distribution_emails'') \<and>
   \<not> truthy (get_prop (zip ex_headers ex_cells_no_recipient) ''additional_emails'') \<and>
   \<not> truthy (get_prop (zip ex_headers ex_cells_no_recipient) ''template_label'') \<and>
   mapRowToObject
     (Some (if 1 < length [ex_headers, ex_cells_no_recipient]
            then [ex_headers, ex_cells_no_recipient] ! 1 else []))
     (mapHeadersToIndices ex_headers) [] = Inr (zip ex_headers ex_cells_no_recipient) \<and>
   (\<exists>msg. processRow ex_platform (zip ex_headers ex_cells_no_recipient) ex_world
            = (Inr False, ex_world\<lparr>logged := logged ex_world @ [LogDebug msg]\<rparr>)) \<and>
   (\<exists>msgs. sendEmails_row ex_platform (loadTemplateData ex_templates)
              (mapHeadersToIndices ex_headers) [ex_headers, ex_cells_no_recipient] 1 ex_world
            = ex_world\<lparr>logged := logged ex_world @ map LogDebug msgs\<rparr>)"
proof -
  let ?raw = "[(''template_label'', ''T''), (''distribution_emails'', []),
               (''email_body_template'', [])]"
  let ?merged = "[(''template_label'', ''T''), (''distribution_emails'', ''u@x.com''),
                  (''email_body_template'', []), (''a'', ''y'')]"
  let ?row = "zip ex_headers ex_cells_no_recipient"
  have g1: "\<not> truthy (get_prop ?merged ''email_body_template'')"
    by (simp add: get_prop_def truthy_def)
  have g2: "mapRowToObject
     (Some (if 1 < length [ex_label_headers, ex_cells_no_body]
            then [ex_label_headers, ex_cells_no_body] ! 1 else []))
     (mapHeadersToIndices ex_label_headers) [] = Inr ?raw"
    by (simp add: ex_cells_no_body_def ex_mapRow_labelled)
  have g3: "applyTemplateIfNeeded (loadTemplateData ex_templates) ?raw = Inr ?merged"
    by (rule ex_merge_T)
  from g1 have "(\<not> truthy (get_prop ?merged ''distribution_emails'') \<and>
            \<not> truthy (get_prop ?merged ''additional_emails'')) \<or>
           \<not> truthy (get_prop ?merged ''email_body_template'')"
    by simp
  from validation_failure_silent_skip [OF this, of ex_platform ex_world 1
      "[ex_label_headers, ex_cells_no_body]" "mapHeadersToIndices ex_label_headers" ?raw
      "loadTemplateData ex_templates"] g2 g3
  have c1: "\<exists>msgs. sendEmails_row ex_platform (loadTemplateData ex_templates)
              (mapHeadersToIndices ex_label_headers) [ex_label_headers, ex_cells_no_body] 1 ex_world
            = ex_world\<lparr>logged := logged ex_world @ map LogDebug msgs\<rparr>"
    by blast
  have h1: "\<not> truthy (get_prop ?row ''distribution_emails'')"
    and h2: "\<not> truthy (get_prop ?row ''additional_emails'')"
    and h3: "\<not> truthy (get_prop ?row ''template_label'')"
    by (simp_all add: ex_headers_def ex_cells_no_recipient_def get_prop_def truthy_def)
  have h4: "mapRowToObject
     (Some (if 1 < length [ex_headers, ex_cells_no_recipient]
            then [ex_headers, ex_cells_no_recipient] ! 1 else []))
     (mapHeadersToIndices ex_headers) [] = Inr ?row"
    by (simp add: ex_cells_no_recipient_def ex_mapRow_cells)
  from h1 h2 have "(\<not> truthy (get_prop ?row ''distribution_emails'') \<and>
            \<not> truthy (get_prop ?row ''additional_emails'')) \<or>
           \<not> truthy (get_prop ?row ''email_body_template'')"
    by simp
  from validation_failure_silent_skip [OF this, of ex_platform ex_world 1
      "[ex_headers, ex_cells_no_recipient]" "mapHeadersToIndices ex_headers" ?row
      "loadTemplateData ex_templates"] h3 h4
  have c2: "\<exists>msg. processRow ex_platform ?row ex_world
            = (Inr False, ex_world\<lparr>logged := logged ex_world @ [LogDebug msg]\<rparr>)"
    and c3: "\<exists>msgs. sendEmails_row ex_platform (loadTemplateData ex_templates)
              (mapHeadersToIndices ex_headers) [ex_headers, ex_cells_no_recipient] 1 ex_world
            = ex_world\<lparr>logged := logged ex_world @ map LogDebug msgs\<rparr>"
    by blast+
  from g1 g2 g3 c1 h1 h2 h3 h4 c2 c3 show ?thesis
    by blast
qed

subsection \<open>The subject\<close>

lemma get_set_prop_other: "k' \<noteq> k \<Longrightarrow> get_prop (set_prop ob k v) k' = get_prop ob k'"
  by (simp add: get_set_prop)

lemma getTemplateValues_subject_not_read:
  "getTemplateValues P (set_prop row ''email_subject_template'' v) = getTemplateValues P row"
  by (simp add: getTemplateValues_def get_set_prop cong: prod.case_cong option.case_cong)

lemma subject_not_read:
  "combineEmailAddresses [get_prop (set_prop row ''email_subject_template'' v) ''distribution_emails'',
      get_prop (set_prop row ''email_subject_template'' v) ''additional_emails'']
    = combineEmailAddresses [get_prop row ''distribution_emails'', get_prop row ''additional_emails'']"
  "buildEmailBody P (set_prop row ''email_subject_template'' v) = buildEmailBody P row"
  "getAttachments P (set_prop row ''email_subject_template'' v) = getAttachments P row"
  "trashAttachments P (set_prop row ''email_subject_template'' v) w = trashAttachments P row w"
  by (simp_all add: buildEmailBody_def getAttachments_def trashAttachments_def fileUrls_def
      getTemplateValues_subject_not_read get_set_prop
      cong: prod.case_cong option.case_cong sum.case_cong)

lemma getFinalSubject_throws:
  "subject_evaluation_throws P row \<Longrightarrow> fst (getFinalSubject P row) = DEFAULT_SUBJECT"
  by (auto simp: subject_evaluation_throws_def getFinalSubject_def split: prod.splits sum.splits)

lemma getFinalSubject_empty:
  "fst (getFinalSubject P (set_prop row ''email_subject_template'' [])) = DEFAULT_SUBJECT"
  by (simp add: getFinalSubject_def get_set_prop truthy_def)

text \<open>
  C10: when the evaluation of the subject template throws, \<open>getFinalSubject\<close> gives the
  default subject.  The outcome of \<open>sendEmail\<close> is then the same as for the record with
  no subject template at all, so the failure of the subject never makes the difference
  between sent and skipped; and for a record that passes validation, with recipients, a
  rendered body and resolved attachments, the mail is handed to \<open>GmailApp.sendEmail\<close>
  with the default subject.
\<close>

theorem subject_failure_falls_back:
  assumes "subject_evaluation_throws P row"
  shows "fst (getFinalSubject P row) = DEFAULT_SUBJECT \<and>
         fst (EmailBuilder_sendEmail P row w)
           = fst (EmailBuilder_sendEmail P (set_prop row ''email_subject_template'' []) w) \<and>
         transport (snd (EmailBuilder_sendEmail P row w))
           = transport (snd (EmailBuilder_sendEmail P (set_prop row ''email_subject_template'' []) w)) \<and>
         (\<forall>recipients body attachments.
            fst (validateRow row) \<and>
            combineEmailAddresses [get_prop row ''distribution_emails'',
                                   get_prop row ''additional_emails''] = Some recipients \<and>
            fst (buildEmailBody P row) = Some body \<and> truthy body \<and>
            fst (getAttachments P row) = Inr attachments \<longrightarrow>
            transport (snd (processRow P row w))
              = transport w @ [\<lparr>mail_recipients = recipients, mail_subject = DEFAULT_SUBJECT,
                                mail_htmlBody = body, mail_attachments = attachments,
                                mail_from = FROM_EMAIL\<rparr>] \<and>
            fst (processRow P row w)
              = Inr (GmailApp_accepts P
                       \<lparr>mail_recipients = recipients, mail_subject = DEFAULT_SUBJECT,
                        mail_htmlBody = body, mail_attachments = attachments,
                        mail_from = FROM_EMAIL\<rparr>))"
proof -
  note s = getFinalSubject_throws [OF assms]
  have eqs: "fst (EmailBuilder_sendEmail P row w)
           = fst (EmailBuilder_sendEmail P (set_prop row ''email_subject_template'' []) w) \<and>
         transport (snd (EmailBuilder_sendEmail P row w))
           = transport (snd (EmailBuilder_sendEmail P (set_prop row ''email_subject_template'' []) w))"
    using s getFinalSubject_empty [of P row]
    by (auto simp: EmailBuilder_sendEmail_def subject_not_read split_beta Let_def
        EmailUtils_sendEmail_log_irrelevant split: option.splits sum.splits)
  have sent: "transport (snd (processRow P row w))
              = transport w @ [\<lparr>mail_recipients = recipients, mail_subject = DEFAULT_SUBJECT,
                                mail_htmlBody = body, mail_attachments = attachments,
                                mail_from = FROM_EMAIL\<rparr>] \<and>
            fst (processRow P row w)
              = Inr (GmailApp_accepts P
                       \<lparr>mail_recipients = recipients, mail_subject = DEFAULT_SUBJECT,
                        mail_htmlBody = body, mail_attachments = attachments,
                        mail_from = FROM_EMAIL\<rparr>)"
    if "fst (validateRow row)"
      "combineEmailAddresses [get_prop row ''distribution_emails'',
                                   get_prop row ''additional_emails''] = Some recipients"
      "fst (buildEmailBody P row) = Some body" "truthy body"
      "fst (getAttachments P row) = Inr attachments" for recipients body attachments
    using that s
    by (auto simp: processRow_def EmailBuilder_sendEmail_def split_beta Let_def
        EmailUtils_sendEmail_log_irrelevant split: option.splits sum.splits prod.splits bool.splits)
  from s eqs sent show ?thesis by blast
qed


lemma ex_small_props:
  "get_prop (zip ex_headers ex_cells_small) ''distribution_emails'' = ''u@x.com''"
  "get_prop (zip ex_headers ex_cells_small) ''additional_emails'' = []"
  "get_prop (zip ex_headers ex_cells_small) ''email_body_template'' = ex_body_id"
  "get_prop (zip ex_headers ex_cells_small) ''attachments_urls'' = ex_small_id"
  "get_prop (zip ex_headers ex_cells_small) ''email_subject_template'' = ''<?= oops( ?>''"
  "get_prop (zip ex_headers ex_cells_small) ''template_values'' = []"
  "get_prop (zip ex_headers ex_cells_small) ''revu_session_invite'' = []"
  by (simp_all add: ex_headers_def ex_cells_small_def get_prop_def)

lemma ex_small_values:
  "getTemplateValues ex_platform (zip ex_headers ex_cells_small)
     = (Inr \<lparr>parsed_values = None, sessionId = None\<rparr>, [])"
  by (simp add: getTemplateValues_def ex_small_props sanitizeJsonText_def truthy_def
      parseSessionId_def)

lemma ex_small_body:
  "fst (buildEmailBody ex_platform (zip ex_headers ex_cells_small)) = Some ''<p><?= n ?></p>''"
proof -
  obtain l where "getFileContentFromUrl ex_platform ex_body_id = (Inr ''<p><?= n ?></p>'', l)"
    using ex_body_content by (cases "getFileContentFromUrl ex_platform ex_body_id") simp
  then show ?thesis
    by (simp add: buildEmailBody_def ex_small_props ex_small_values ex_evaluate_literal)
qed

lemma ex_small_fileUrls: "fileUrls (zip ex_headers ex_cells_small) = [ex_small_id]"
  by (simp add: fileUrls_def ex_small_props)
     (simp add: String_split_def urlSeparatorRegex_def rx_forms rx_ends.simps(6)
      ex_small_id_def trim_def char_classes)

lemma ex_small_attachments:
  "fst (getAttachments ex_platform (zip ex_headers ex_cells_small)) = Inr [''small'']"
proof -
  have "DriveApp_getFileById ex_platform ex_small_id
          = Some \<lparr>file_size = 1024, file_blob = ''small''\<rparr>"
    by (simp add: ex_platform_def ex_ids_differ)
  moreover have "truthy ex_small_id"
    by (simp add: truthy_def ex_small_id_def)
  ultimately show ?thesis
    by (simp add: getAttachments_def ex_small_fileUrls ex_small_props ex_extract_small
        isFileTooLarge_def getFileBlob_def MAX_ATTACHMENT_SIZE_def)
qed

theorem subject_failure_falls_back_witness:
  "subject_evaluation_throws ex_platform (zip ex_headers ex_cells_small) \<and>
   fst (validateRow (zip ex_headers ex_cells_small)) \<and>
   combineEmailAddresses [get_prop (zip ex_headers ex_cells_small) ''distribution_emails'',
                          get_prop (zip ex_headers ex_cells_small) ''additional_emails'']
     = Some ''u@x.com'' \<and>
   fst (buildEmailBody ex_platform (zip ex_headers ex_cells_small)) = Some ''<p><?= n ?></p>'' \<and>
   truthy ''<p><?= n ?></p>'' \<and>
   fst (getAttachments ex_platform (zip ex_headers ex_cells_small)) = Inr [''small''] \<and>
   fst (getFinalSubject ex_platform (zip ex_headers ex_cells_small)) = DEFAULT_SUBJECT \<and>
   transport (snd (processRow ex_platform (zip ex_headers ex_cells_small) ex_world))
     = [\<lparr>mail_recipients = ''u@x.com'', mail_subject = DEFAULT_SUBJECT,
         mail_htmlBody = ''<p><?= n ?></p>'', mail_attachments = [''small''],
         mail_from = FROM_EMAIL\<rparr>] \<and>
   fst (processRow ex_platform (zip ex_headers ex_cells_small) ex_world) = Inr True"
proof -
  let ?row = "zip ex_headers ex_cells_small"
  have "HtmlService_evaluate ex_platform ''<?= oops( ?>''
          \<lparr>parsed_values = None, sessionId = None\<rparr> = None"
    by (simp add: ex_platform_def)
  then have h0: "subject_evaluation_throws ex_platform ?row"
    by (simp add: subject_evaluation_throws_def ex_small_props ex_small_values truthy_def)
  have h1: "fst (validateRow ?row)"
    by (simp add: validateRow_def ex_small_props truthy_def ex_body_id_def)
  have h2: "combineEmailAddresses [get_prop ?row ''distribution_emails'',
                          get_prop ?row ''additional_emails''] = Some ''u@x.com''"
    by (simp add: ex_small_props ex_recipients)
  have h4: "truthy ''<p><?= n ?></p>''"
    by (simp add: truthy_def)
  have acc: "GmailApp_accepts ex_platform m" for m
    by (simp add: ex_platform_def)
  have tw: "transport ex_world = []"
    by (simp add: ex_world_def)
  from subject_failure_falls_back [OF h0, of ex_world] h1 h2 ex_small_body h4 ex_small_attachments
  have "fst (getFinalSubject ex_platform ?row) = DEFAULT_SUBJECT"
    and "transport (snd (processRow ex_platform ?row ex_world))
         = transport ex_world @ [\<lparr>mail_recipients = ''u@x.com'', mail_subject = DEFAULT_SUBJECT,
         mail_htmlBody = ''<p><?= n ?></p>'', mail_attachments = [''small''],
         mail_from = FROM_EMAIL\<rparr>]"
    and "fst (processRow ex_platform ?row ex_world)
         = Inr (GmailApp_accepts ex_platform \<lparr>mail_recipients = ''u@x.com'', mail_subject = DEFAULT_SUBJECT,
         mail_htmlBody = ''<p><?= n ?></p>'', mail_attachments = [''small''],
         mail_from = FROM_EMAIL\<rparr>)"
    by blast+
  with h0 h1 h2 ex_small_body h4 ex_small_attachments acc tw show ?thesis
    by simp
qed

subsection \<open>Ampersands in the subject fields\<close>

lemma rx_ends_Lit:
  "rx_ends (Lit c) (pv, s) = (case s of [] \<Rightarrow> [] | x # xs \<Rightarrow> if x = c then [(Some x, xs)] else [])"
  by (cases s) (simp_all add: Lit_def)

lemma replace_char:
  "replace_from (Lit c) (\<lambda>m. t) (pv, s) = concat (map (\<lambda>x. if x = c then t else [x]) s)"
  by (induction s arbitrary: pv) (simp_all add: rx_ends_Lit del: rx_ends.simps)

lemma sanitizeInput_chars:
  "sanitizeInput text = concat (map (\<lambda>x. if x = CHR ''&'' then ''and'' else [x]) text)"
  by (simp add: sanitizeInput_def String_replace_def replace_char truthy_def)

lemma sanitizeInput_no_amp: "CHR ''&'' \<notin> set (sanitizeInput text)"
  by (auto simp: sanitizeInput_chars split: if_splits)

lemma constructor_subject:
  "get_prop (EmailBuilder_constructor_121 row) ''email_subject_template''
     = sanitizeInput (get_prop row ''email_subject_template'')"
  "get_prop (EmailBuilder_constructor_121 row) ''subject_template_value''
     = sanitizeInput (get_prop row ''subject_template_value'')"
  by (auto simp: EmailBuilder_constructor_121_def Let_def get_set_prop sanitizeInput_def truthy_def)

text \<open>
  In version 1.2.1 the constructor of \<open>EmailBuilder\<close> replaces every \<open>&\<close> of
  \<open>email_subject_template\<close> and of \<open>subject_template_value\<close> by the word \<open>and\<close>, so neither
  field holds an \<open>&\<close> afterwards; and \<open>getFinalSubject\<close> hands the evaluator a template
  without \<open>&\<close>: its result does not depend on what the evaluator does with a template
  that contains one.
\<close>

lemma subject_fields_without_ampersand_121:
  "get_prop (EmailBuilder_constructor_121 row) ''email_subject_template''
     = concat (map (\<lambda>x. if x = CHR ''&'' then ''and'' else [x])
                   (get_prop row ''email_subject_template'')) \<and>
   get_prop (EmailBuilder_constructor_121 row) ''subject_template_value''
     = concat (map (\<lambda>x. if x = CHR ''&'' then ''and'' else [x])
                   (get_prop row ''subject_template_value'')) \<and>
   CHR ''&'' \<notin> set (get_prop (EmailBuilder_constructor_121 row) ''email_subject_template'') \<and>
   CHR ''&'' \<notin> set (get_prop (EmailBuilder_constructor_121 row) ''subject_template_value'') \<and>
   ((\<forall>t v. CHR ''&'' \<notin> set t \<longrightarrow> evaluate' t v = HtmlService_evaluate P t v) \<longrightarrow>
      getFinalSubject_121 (P\<lparr>HtmlService_evaluate := evaluate'\<rparr>) (EmailBuilder_constructor_121 row)
        = getFinalSubject_121 P (EmailBuilder_constructor_121 row))"
proof -
  have "getFinalSubject_121 (P\<lparr>HtmlService_evaluate := evaluate'\<rparr>) (EmailBuilder_constructor_121 row)
        = getFinalSubject_121 P (EmailBuilder_constructor_121 row)"
    if a: "\<forall>t v. CHR ''&'' \<notin> set t \<longrightarrow> evaluate' t v = HtmlService_evaluate P t v"
  proof -
    have v: "getTemplateValues_121 (P\<lparr>HtmlService_evaluate := evaluate'\<rparr>) r = getTemplateValues_121 P r" for r
      by (simp add: getTemplateValues_121_def sanitizeJsonText_121_def
          cong: prod.case_cong option.case_cong)
    have e: "evaluate' (get_prop (EmailBuilder_constructor_121 row) ''email_subject_template'') v
             = HtmlService_evaluate P (get_prop (EmailBuilder_constructor_121 row) ''email_subject_template'') v" for v
      using a by (simp add: constructor_subject sanitizeInput_no_amp)
    show ?thesis
      by (simp add: getFinalSubject_121_def v e cong: prod.case_cong sum.case_cong)
  qed
  then show ?thesis
    by (simp add: constructor_subject sanitizeInput_no_amp) (simp add: sanitizeInput_chars)
qed

lemma ex_subject_121:
  "fst (getFinalSubject_121 ex_platform (EmailBuilder_constructor_121 ex_subject_row))
     = ''RandD review''"
proof -
  have s1: "get_prop (EmailBuilder_constructor_121 ex_subject_row) ''email_subject_template''
     = ''RandD review''"
    unfolding constructor_subject(1) sanitizeInput_chars
    by (simp add: ex_subject_row_def get_prop_def)
  have c: "get_prop (EmailBuilder_constructor_121 ex_subject_row) ''email_template_values'' = []"
    "get_prop (EmailBuilder_constructor_121 ex_subject_row) ''revu_session_invite'' = []"
    by (simp_all add: EmailBuilder_constructor_121_def ex_subject_row_def get_prop_def
        set_prop_def truthy_def Let_def)
  have v: "getTemplateValues_121 ex_platform (EmailBuilder_constructor_121 ex_subject_row)
             = (Inr \<lparr>parsed_values = Some ''{}'', sessionId = None\<rparr>, [])"
  proof -
    have "JSON_parse ex_platform ''{}'' = Some ''{}''"
      by (simp add: ex_platform_def)
    then show ?thesis
      by (simp add: getTemplateValues_121_def c sanitizeJsonText_121_def truthy_def
          parseSessionId_121_def)
  qed
  have e: "HtmlService_evaluate ex_platform ''RandD review''
             \<lparr>parsed_values = Some ''{}'', sessionId = None\<rparr> = Some ''RandD review''"
    by (simp add: ex_platform_def)
  have d: "decodeHtmlEntities (trim ''RandD review'') = ''RandD review''"
    by (simp add: decodeHtmlEntities_def trim_def is_space_def truthy_def String_replace_def
        Lit_def)
  show ?thesis
    by (simp add: getFinalSubject_121_def s1 v e d truthy_def)
qed

text \<open>
  C9 on \<open>src/Code.ts\<close> (version 1.1.0), for a record whose subject template is
  \<open>R&D review\<close>.  The constructor of \<open>EmailBuilder\<close> there keeps the record as it is, and
  \<open>getFinalSubject\<close> hands the subject template to the evaluator with its \<open>&\<close>: the
  subject of the mail is \<open>R&D review\<close>, and with an evaluator that throws on a text
  with an \<open>&\<close> it is the default subject.  In version 1.2.1 the subject of the same
  record is \<open>RandD review\<close>.
\<close>

theorem subject_ampersand_reaches_evaluator:
  "get_prop ex_subject_row ''email_subject_template'' = ''R&D review'' \<and>
   fst (getFinalSubject ex_platform ex_subject_row) = ''R&D review'' \<and>
   fst (getFinalSubject
          (ex_platform\<lparr>HtmlService_evaluate :=
             (\<lambda>t v. if CHR ''&'' \<in> set t then None else HtmlService_evaluate ex_platform t v)\<rparr>)
          ex_subject_row) = DEFAULT_SUBJECT \<and>
   fst (getFinalSubject_121 ex_platform (EmailBuilder_constructor_121 ex_subject_row))
     = ''RandD review''"
proof -
  let ?P = "ex_platform\<lparr>HtmlService_evaluate :=
             (\<lambda>t v. if CHR ''&'' \<in> set t then None else HtmlService_evaluate ex_platform t v)\<rparr>"
  have p: "get_prop ex_subject_row ''email_subject_template'' = ''R&D review''"
    "get_prop ex_subject_row ''template_values'' = []"
    "get_prop ex_subject_row ''revu_session_invite'' = []"
    by (simp_all add: ex_subject_row_def get_prop_def)
  have v: "getTemplateValues P ex_subject_row
             = (Inr \<lparr>parsed_values = None, sessionId = None\<rparr>, [])" for P :: "string platform"
    by (simp add: getTemplateValues_def p sanitizeJsonText_def truthy_def parseSessionId_def)
  have e: "HtmlService_evaluate ex_platform ''R&D review''
             \<lparr>parsed_values = None, sessionId = None\<rparr> = Some ''R&D review''"
    by (simp add: ex_platform_def)
  have d: "decodeHtmlEntities (trim ''R&D review'') = ''R&D review''"
    by (simp add: decodeHtmlEntities_def trim_def is_space_def truthy_def String_replace_def
        Lit_def)
  have s1: "fst (getFinalSubject ex_platform ex_subject_row) = ''R&D review''"
    by (simp add: getFinalSubject_def p v e d truthy_def)
  have s2: "fst (getFinalSubject ?P ex_subject_row) = DEFAULT_SUBJECT"
    by (simp add: getFinalSubject_def p v truthy_def)
  from p(1) s1 s2 ex_subject_121 show ?thesis
    by simp
qed

subsection \<open>Combining addresses\<close>







lemmas parse_eval = parseEmailAddresses_def truthy_def
      String_replace_def commentLineRegex_def lower_eval emailRegex_exec_loop.simps emailRegex_def
      atSeparator_def dotSeparator_def domainLabel_def rx_forms rx_ends.simps(6) char_classes
      matched_def startsWith_def atDotRegex_def atDotReplacement_def trim_def


lemma ex_two_addresses:
  "parseEmailAddresses ''U@x.com; v at Y dot org'' = [''u@x.com'', ''v@y.org'']"
  by (simp add: parse_eval)


subsection \<open>The first match of a sequence\<close>

lemma first_some_append:
  "first_some k (xs @ ys) = (case first_some k xs of None \<Rightarrow> first_some k ys | Some y \<Rightarrow> Some y)"
  by (induction xs) (auto split: option.splits)

lemma first_some_concat_map:
  "first_some k (concat (map f xs)) = first_some (\<lambda>x. first_some k (f x)) xs"
  by (induction xs) (auto simp: first_some_append split: option.splits)

lemma first_some_map:
  "first_some k (map f xs) = first_some (\<lambda>x. k (f x)) xs"
  by (induction xs) (auto split: option.splits)

lemma first_some_cong:
  "(\<And>x. x \<in> set xs \<Longrightarrow> k x = k' x) \<Longrightarrow> first_some k xs = first_some k' xs"
  by (induction xs) (auto split: option.splits)

lemma first_some_None: "(\<And>x. x \<in> set xs \<Longrightarrow> k x = None) \<Longrightarrow> first_some k xs = None"
  by (induction xs) auto

lemma cursor_end_Cons: "cursor_end pv (x # xs) = cursor_end (Some x) xs"
  by (simp add: cursor_end_def)

lemma first_match_Eps: "first_match Eps k cur = k cur"
  by (simp add: first_match_def split: option.splits)

lemma first_match_Cls:
  "first_match (Cls p) k (pv, s) =
     (case s of [] \<Rightarrow> None | c # cs \<Rightarrow> if p c then k (Some c, cs) else None)"
  by (cases s) (auto simp: first_match_def split: option.splits)

lemma first_match_Seq: "first_match (Seq a b) k cur = first_match a (first_match b k) cur"
  by (simp add: first_match_def [abs_def] first_some_concat_map)

lemma first_match_Seq_fun: "first_match (Seq a b) k = first_match a (first_match b k)"
  by (rule ext) (rule first_match_Seq)

lemma first_match_Alt:
  "first_match (Alt a b) k cur =
     (case first_match a k cur of None \<Rightarrow> first_match b k cur | Some y \<Rightarrow> Some y)"
  unfolding first_match_def by (simp add: first_some_append)

lemma first_match_Star:
  "first_match (Star a) k cur =
     (case first_match a (\<lambda>cur'. if length (snd cur') < length (snd cur)
                                   then first_match (Star a) k cur' else None) cur of
        None \<Rightarrow> k cur
      | Some y \<Rightarrow> Some y)"
proof -
  have "first_some k (concat (map (\<lambda>cur'. if length (snd cur') < length (snd cur)
                           then rx_ends (Star a) cur' else []) (rx_ends a cur)))
      = first_some (\<lambda>cur'. if length (snd cur') < length (snd cur)
                            then first_some k (rx_ends (Star a) cur') else None) (rx_ends a cur)"
    unfolding first_some_concat_map by (rule first_some_cong) simp
  then have "first_some k (rx_ends (Star a) cur)
      = (case first_some (\<lambda>cur'. if length (snd cur') < length (snd cur)
                            then first_some k (rx_ends (Star a) cur') else None) (rx_ends a cur) of
           None \<Rightarrow> k cur | Some y \<Rightarrow> Some y)"
    by (simp add: rx_ends.simps(6) [of a cur] first_some_append split: option.splits)
  then show ?thesis
    unfolding first_match_def .
qed

lemma first_match_fails: "rx_ends r cur = [] \<Longrightarrow> first_match r k cur = None"
  by (simp add: first_match_def)

lemma first_match_head:
  "first_match r Some cur = Some en \<Longrightarrow> \<exists>ens. rx_ends r cur = en # ens"
  by (cases "rx_ends r cur") (auto simp: first_match_def)

lemma first_match_Star_Cls_greedy:
  assumes "\<forall>x \<in> set xs. p x" and "rest = [] \<or> \<not> p (hd rest)"
    and "k (cursor_end pv xs, rest) = Some y"
  shows "first_match (Star (Cls p)) k (pv, xs @ rest) = Some y"
  using assms
proof (induction xs arbitrary: pv)
  case Nil
  then have "first_match (Cls p) k' (pv, rest) = None" for k' :: "cursor \<Rightarrow> 'a option"
    by (cases rest) (auto simp: first_match_Cls)
  with Nil show ?case
    by (subst first_match_Star) (simp add: cursor_end_def)
next
  case (Cons x xs)
  from Cons.prems have "k (cursor_end (Some x) xs, rest) = Some y"
    by (simp add: cursor_end_Cons)
  with Cons have "first_match (Star (Cls p)) k (Some x, xs @ rest) = Some y"
    by simp
  with Cons.prems show ?case
    by (subst first_match_Star) (simp add: first_match_Cls)
qed

lemma first_match_Star_Cls_backoff:
  assumes "\<forall>x \<in> set xs. p x" and "p x" and "rest = [] \<or> \<not> p (hd rest)"
    and "k (Some x, rest) = None"
    and "k (cursor_end pv xs, x # rest) = Some y"
  shows "first_match (Star (Cls p)) k (pv, xs @ x # rest) = Some y"
  using assms
proof (induction xs arbitrary: pv)
  case Nil
  then have "first_match (Cls p) k' (Some x, rest) = None" for k' :: "cursor \<Rightarrow> 'a option"
    by (cases rest) (auto simp: first_match_Cls)
  then have "first_match (Star (Cls p)) k (Some x, rest) = None"
    using Nil by (subst first_match_Star) simp
  with Nil show ?case
    by (subst first_match_Star) (simp add: first_match_Cls cursor_end_def)
next
  case (Cons z zs)
  from Cons.prems have "k (cursor_end (Some z) zs, x # rest) = Some y"
    by (simp add: cursor_end_Cons)
  with Cons have "first_match (Star (Cls p)) k (Some z, zs @ x # rest) = Some y"
    by simp
  with Cons.prems show ?case
    by (subst first_match_Star) (simp add: first_match_Cls)
qed

lemma first_match_Plus_Cls_greedy:
  assumes "xs \<noteq> []" and "\<forall>x \<in> set xs. p x" and "rest = [] \<or> \<not> p (hd rest)"
    and "k (Some (last xs), rest) = Some y"
  shows "first_match (Plus (Cls p)) k (pv, xs @ rest) = Some y"
proof -
  from assms(1) obtain x xs' where xs: "xs = x # xs'" by (cases xs) auto
  with assms have "k (cursor_end (Some x) xs', rest) = Some y"
    by (auto simp: cursor_end_def)
  with assms xs have "first_match (Star (Cls p)) k (Some x, xs' @ rest) = Some y"
    by (intro first_match_Star_Cls_greedy) simp_all
  with assms xs show ?thesis
    by (simp add: Plus_def first_match_Seq first_match_Cls)
qed

lemma rx_ends_suffix:
  "en \<in> set (rx_ends r cur) \<Longrightarrow> \<exists>pre. snd cur = pre @ snd en"
proof (induction r cur arbitrary: en rule: rx_ends.induct)
  case (4 a b cur)
  from "4.prems" obtain x where x: "x \<in> set (rx_ends a cur)" and en: "en \<in> set (rx_ends b x)"
    unfolding rx_ends_Seq_mem by blast
  from "4.IH"(1) [OF x] "4.IH"(2) [OF x en] show ?case by auto
next
  case (6 a cur)
  from "6.prems" consider "en = cur"
    | x where "x \<in> set (rx_ends a cur)" "length (snd x) < length (snd cur)"
        "en \<in> set (rx_ends (Star a) x)"
    by (auto simp: rx_ends.simps(6) [of a cur] split: if_splits)
  then show ?case
  proof cases
    case 1
    then show ?thesis by simp
  next
    case 2
    from "6.IH"(1) [OF 2(1)] "6.IH"(2) [OF 2(1) 2(2) 2(3)] show ?thesis by auto
  qed
qed (auto split: if_splits)

lemma first_match_domainLabel:
  assumes "is_label b" and "rest = [] \<or> \<not> is_alnum_hyphen (hd rest)"
    and "k (Some (last b), rest) = Some y"
  shows "first_match domainLabel k (pv, b @ rest) = Some y"
proof -
  from assms(1) obtain b0 b' where b: "b = b0 # b'" and b0: "is_alnum b0"
    by (cases b) (auto simp: is_label_def)
  have rest: "rest = [] \<or> \<not> is_alnum (hd rest)"
    using assms(2) by (auto simp: is_alnum_hyphen_def)
  have tail: "first_match (Opt (Seq (Star (Cls is_alnum_hyphen)) (Cls is_alnum))) k
                (Some b0, b' @ rest) = Some y"
  proof (cases b' rule: rev_cases)
    case Nil
    have "first_match (Cls is_alnum) k (Some b0, rest) = None"
      using rest by (cases rest) (auto simp: first_match_Cls)
    moreover have "first_match (Cls is_alnum_hyphen) k' (Some b0, rest) = None"
      for k' :: "cursor \<Rightarrow> 'a option"
      using assms(2) by (cases rest) (auto simp: first_match_Cls)
    ultimately have "first_match (Seq (Star (Cls is_alnum_hyphen)) (Cls is_alnum)) k
                       (Some b0, rest) = None"
      by (simp add: first_match_Seq) (subst first_match_Star, simp)
    with Nil assms(3) b show ?thesis
      by (simp add: Opt_def first_match_Alt first_match_Eps)
  next
    case (snoc m l)
    with assms(1) b have l: "is_alnum l" "is_alnum_hyphen l" and m: "\<forall>x \<in> set m. is_alnum_hyphen x"
      by (auto simp: is_label_def list_all_iff)
    have n: "first_match (Cls is_alnum) k (Some l, rest) = None"
      using rest by (cases rest) (auto simp: first_match_Cls)
    have s: "first_match (Cls is_alnum) k (cursor_end (Some b0) m, l # rest) = Some y"
      using l assms(3) b snoc by (simp add: first_match_Cls)
    from first_match_Star_Cls_backoff [where p = is_alnum_hyphen and k = "first_match (Cls is_alnum) k", OF m l(2) assms(2) n s]
    have "first_match (Seq (Star (Cls is_alnum_hyphen)) (Cls is_alnum)) k
            (Some b0, b' @ rest) = Some y"
      using snoc by (simp add: first_match_Seq)
    then show ?thesis
      by (simp add: Opt_def first_match_Alt)
  qed
  with b b0 show ?thesis
    by (simp add: domainLabel_def first_match_Seq first_match_Cls)
qed

lemma not_space_at: "\<not> is_space CHR ''a''" "\<not> is_space CHR ''d''"
  by (simp_all add: is_space_def)

lemma first_match_atSeparator:
  assumes "is_spaces w1" and "is_spaces w2" and "rest = [] \<or> \<not> is_space (hd rest)"
    and "k (Some (last w2), rest) = Some y"
  shows "first_match atSeparator k (pv, w1 @ ''at'' @ w2 @ rest) = Some y"
proof -
  from assms(1) have w1: "w1 \<noteq> []" "\<forall>x \<in> set w1. is_space x" "hd w1 \<noteq> CHR ''@''"
    by (cases w1; auto simp: is_spaces_def list_all_iff is_space_def)+
  from assms(2) have w2: "w2 \<noteq> []" "\<forall>x \<in> set w2. is_space x"
    by (auto simp: is_spaces_def list_all_iff)
  have a: "first_match (Plus (Cls is_space)) k (Some CHR ''t'', w2 @ rest) = Some y"
    by (rule first_match_Plus_Cls_greedy [where p = is_space and k = k, OF w2 assms(3,4)])
  have b: "first_match (Seq (Seq (LitI CHR ''a'' CHR ''A'') (LitI CHR ''t'' CHR ''T''))
                            (Plus (Cls is_space))) k (Some (last w1), ''at'' @ w2 @ rest) = Some y"
    using a by (simp add: first_match_Seq LitI_def first_match_Cls)
  have c: "first_match (Seq (Plus (Cls is_space))
              (Seq (Seq (LitI CHR ''a'' CHR ''A'') (LitI CHR ''t'' CHR ''T''))
                   (Plus (Cls is_space)))) k (pv, w1 @ ''at'' @ w2 @ rest) = Some y"
    unfolding first_match_Seq [of "Plus (Cls is_space)"]
    by (rule first_match_Plus_Cls_greedy [where p = is_space
          and k = "first_match (Seq (Seq (LitI CHR ''a'' CHR ''A'') (LitI CHR ''t'' CHR ''T''))
                     (Plus (Cls is_space))) k", OF w1(1,2) _ b])
       (simp add: not_space_at)
  have "first_match (Lit CHR ''@'') k (pv, w1 @ ''at'' @ w2 @ rest) = None"
    using w1 by (cases w1) (auto simp: Lit_def first_match_Cls)
  with c show ?thesis
    by (simp add: atSeparator_def first_match_Alt)
qed

lemma first_match_dotSeparator:
  assumes "is_spaces w1" and "is_spaces w2" and "rest = [] \<or> \<not> is_space (hd rest)"
    and "k (Some (last w2), rest) = Some y"
  shows "first_match dotSeparator k (pv, w1 @ ''dot'' @ w2 @ rest) = Some y"
proof -
  from assms(1) have w1: "w1 \<noteq> []" "\<forall>x \<in> set w1. is_space x" "hd w1 \<noteq> CHR ''.''"
    by (cases w1; auto simp: is_spaces_def list_all_iff is_space_def)+
  from assms(2) have w2: "w2 \<noteq> []" "\<forall>x \<in> set w2. is_space x"
    by (auto simp: is_spaces_def list_all_iff)
  have a: "first_match (Plus (Cls is_space)) k (Some CHR ''t'', w2 @ rest) = Some y"
    by (rule first_match_Plus_Cls_greedy [where p = is_space and k = k, OF w2 assms(3,4)])
  have b: "first_match (Seq (Seq (LitI CHR ''d'' CHR ''D'')
                                 (Seq (LitI CHR ''o'' CHR ''O'') (LitI CHR ''t'' CHR ''T'')))
                            (Plus (Cls is_space))) k (Some (last w1), ''dot'' @ w2 @ rest) = Some y"
    using a by (simp add: first_match_Seq LitI_def first_match_Cls)
  have c: "first_match (Seq (Plus (Cls is_space))
              (Seq (Seq (LitI CHR ''d'' CHR ''D'')
                        (Seq (LitI CHR ''o'' CHR ''O'') (LitI CHR ''t'' CHR ''T'')))
                   (Plus (Cls is_space)))) k (pv, w1 @ ''dot'' @ w2 @ rest) = Some y"
    unfolding first_match_Seq [of "Plus (Cls is_space)"]
    by (rule first_match_Plus_Cls_greedy [where p = is_space
          and k = "first_match (Seq (Seq (LitI CHR ''d'' CHR ''D'')
                        (Seq (LitI CHR ''o'' CHR ''O'') (LitI CHR ''t'' CHR ''T'')))
                     (Plus (Cls is_space))) k", OF w1(1,2) _ b])
       (simp add: not_space_at)
  have "first_match (Lit CHR ''.'') k (pv, w1 @ ''dot'' @ w2 @ rest) = None"
    using w1 by (cases w1) (auto simp: Lit_def first_match_Cls)
  with c show ?thesis
    by (simp add: dotSeparator_def first_match_Alt)
qed

lemma alnum_hyphen_not_space: "is_alnum_hyphen c \<Longrightarrow> \<not> is_space c"
  by (auto simp: char_classes)

lemma alnum_hyphen_not_dot: "is_alnum_hyphen c \<Longrightarrow> c \<noteq> CHR ''.''"
  by (auto simp: char_classes)

lemma rx_ends_dotSeparator_fails:
  "rest = [] \<or> is_alnum_hyphen (hd rest) \<Longrightarrow> rx_ends dotSeparator (pv, rest) = []"
  by (cases rest)
     (auto simp: dotSeparator_def Plus_def Lit_def dest: alnum_hyphen_not_space alnum_hyphen_not_dot)

lemma label_then_separator_fails:
  assumes "list_all is_alnum_hyphen c"
  shows "rx_ends (Seq domainLabel dotSeparator) (pv, c) = []"
proof -
  have "rx_ends dotSeparator en = []" if "en \<in> set (rx_ends domainLabel (pv, c))" for en
  proof -
    from rx_ends_suffix [OF that] obtain pre where "c = pre @ snd en" by auto
    with assms have "snd en = [] \<or> is_alnum_hyphen (hd (snd en))"
      by (cases "snd en") (auto simp: list_all_iff)
    from rx_ends_dotSeparator_fails [OF this, of "fst en"] show ?thesis by simp
  qed
  then show ?thesis by simp
qed

lemma space_not_atom: "is_space c \<Longrightarrow> \<not> is_atom_char c"
  by (auto simp: char_classes)

lemma space_not_alnum_hyphen: "is_space c \<Longrightarrow> \<not> is_alnum_hyphen c"
  by (auto simp: char_classes)

lemma space_not_dot: "is_space c \<Longrightarrow> c \<noteq> CHR ''.''"
  by (auto simp: char_classes)

lemma is_spaces_hd: "is_spaces w \<Longrightarrow> is_space (hd w)"
  by (cases w) (auto simp: is_spaces_def)

lemma is_label_hd: "is_label b \<Longrightarrow> is_alnum_hyphen (hd b)"
  by (cases b) (auto simp: is_label_def)

lemma hd_append_nonempty: "xs \<noteq> [] \<Longrightarrow> hd (xs @ ys) = hd xs"
  by simp

lemma dotted_Nil: "dotted [] = []"
  by (simp add: dotted_def)

lemma dotted_Cons: "dotted (x # xs) = CHR ''.'' # x @ dotted xs"
  by (simp add: dotted_def)

lemma join_dotted: "join ''.'' (a # as) = a @ dotted as"
  by (induction as arbitrary: a) (simp_all add: dotted_Nil dotted_Cons)

lemma dot_not_atom: "\<not> is_atom_char CHR ''.''"
  by (simp add: char_classes)

lemma dotted_then_hd:
  assumes "rest = [] \<or> \<not> is_atom_char (hd rest)"
  shows "dotted as @ rest = [] \<or> \<not> is_atom_char (hd (dotted as @ rest))"
  using assms by (cases as) (simp_all add: dotted_Nil dotted_Cons dot_not_atom)

lemma first_match_dotted:
  assumes "list_all is_atom as"
    and "rest = [] \<or> \<not> is_atom_char (hd rest) \<and> hd rest \<noteq> CHR ''.''"
    and "\<And>pv'. k (pv', rest) = Some y"
  shows "first_match (Star (Seq (Lit CHR ''.'') (Plus (Cls is_atom_char)))) k (pv, dotted as @ rest)
           = Some y"
  using assms(1)
proof (induction as arbitrary: pv)
  case Nil
  have "rx_ends (Seq (Lit CHR ''.'') (Plus (Cls is_atom_char))) (pv, rest) = []"
    using assms(2) by (cases rest) (auto simp: Lit_def)
  then have "first_match (Seq (Lit CHR ''.'') (Plus (Cls is_atom_char))) k' (pv, rest) = None"
    for k' :: "cursor \<Rightarrow> 'a option"
    by (rule first_match_fails)
  then show ?case
    by (subst first_match_Star) (simp add: dotted_Nil assms(3))
next
  case (Cons x as)
  let ?X = "Seq (Lit CHR ''.'') (Plus (Cls is_atom_char))"
  let ?K = "\<lambda>cur'. if length (snd cur') < length (CHR ''.'' # x @ dotted as @ rest)
                    then first_match (Star ?X) k cur' else None"
  from Cons.prems have x: "x \<noteq> []" "\<forall>c \<in> set x. is_atom_char c" and as: "list_all is_atom as"
    by (simp_all add: is_atom_def list_all_iff)
  have "first_match (Plus (Cls is_atom_char)) ?K (Some CHR ''.'', x @ (dotted as @ rest)) = Some y"
  proof (rule first_match_Plus_Cls_greedy [where p = is_atom_char and k = ?K, OF x])
    show "dotted as @ rest = [] \<or> \<not> is_atom_char (hd (dotted as @ rest))"
      using assms(2) by (intro dotted_then_hd) auto
    show "?K (Some (last x), dotted as @ rest) = Some y"
      using Cons.IH [OF as] by simp
  qed
  then have "first_match ?X ?K (pv, CHR ''.'' # x @ dotted as @ rest) = Some y"
    by (simp add: first_match_Seq Lit_def first_match_Cls)
  then show ?case
    by (subst first_match_Star) (simp add: dotted_Cons)
qed

lemma emailRegex_first_match:
  assumes a: "is_atom a" and as: "list_all is_atom as" and b: "is_label b" and c: "is_label c"
    and w: "is_spaces w1" "is_spaces w2" "is_spaces w3" "is_spaces w4"
  shows "first_match emailRegex Some
           (pv, a @ dotted as @ w1 @ ''at'' @ w2 @ b @ w3 @ ''dot'' @ w4 @ c)
           = Some (Some (last c), [])"
proof -
  let ?X = "Seq domainLabel dotSeparator"
  let ?k4 = "first_match domainLabel Some :: cursor \<Rightarrow> cursor option"
  let ?k3 = "first_match (Star ?X) ?k4"
  let ?k2 = "first_match (Plus ?X) ?k4"
  let ?k1 = "first_match atSeparator ?k2"
  let ?k0 = "first_match (Star (Seq (Lit CHR ''.'') (Plus (Cls is_atom_char)))) ?k1"
  have ne: "w1 \<noteq> []" "w2 \<noteq> []" "w3 \<noteq> []" "w4 \<noteq> []" "b \<noteq> []" "c \<noteq> []" "a \<noteq> []"
    using a b c w by (auto simp: is_spaces_def is_label_def is_atom_def)
  have s5: "?k4 (pv', c) = Some (Some (last c), [])" for pv'
    using first_match_domainLabel [OF c, of "[]" Some "(Some (last c), [])" pv'] by simp
  have s4: "?k3 (pv', c) = Some (Some (last c), [])" for pv'
  proof -
    from c have "list_all is_alnum_hyphen c" by (simp add: is_label_def)
    from label_then_separator_fails [OF this]
    have "first_match ?X k' (pv', c) = None" for k' :: "cursor \<Rightarrow> cursor option"
      by (rule first_match_fails)
    then show ?thesis
      by (subst first_match_Star) (simp add: s5)
  qed
  have s3: "first_match dotSeparator ?k3 (pv', w3 @ ''dot'' @ w4 @ c) = Some (Some (last c), [])"
    for pv'
  proof (rule first_match_dotSeparator [OF w(3,4)])
    show "c = [] \<or> \<not> is_space (hd c)"
      using is_label_hd [OF c] alnum_hyphen_not_space by blast
    show "?k3 (Some (last w4), c) = Some (Some (last c), [])"
      by (rule s4)
  qed
  have s2: "?k2 (pv', b @ w3 @ ''dot'' @ w4 @ c) = Some (Some (last c), [])" for pv'
  proof -
    have "first_match domainLabel (first_match dotSeparator ?k3)
            (pv', b @ (w3 @ ''dot'' @ w4 @ c)) = Some (Some (last c), [])"
    proof (rule first_match_domainLabel [OF b])
      show "w3 @ ''dot'' @ w4 @ c = [] \<or> \<not> is_alnum_hyphen (hd (w3 @ ''dot'' @ w4 @ c))"
        using is_spaces_hd [OF w(3)] ne space_not_alnum_hyphen by simp
      show "first_match dotSeparator ?k3 (Some (last b), w3 @ ''dot'' @ w4 @ c)
              = Some (Some (last c), [])"
        by (rule s3)
    qed
    then show ?thesis
      by (simp add: Plus_def first_match_Seq)
  qed
  have s1: "?k1 (pv', w1 @ ''at'' @ w2 @ b @ w3 @ ''dot'' @ w4 @ c) = Some (Some (last c), [])"
    for pv'
  proof (rule first_match_atSeparator [OF w(1,2)])
    show "b @ w3 @ ''dot'' @ w4 @ c = [] \<or> \<not> is_space (hd (b @ w3 @ ''dot'' @ w4 @ c))"
      using is_label_hd [OF b] ne alnum_hyphen_not_space by simp
    show "?k2 (Some (last w2), b @ w3 @ ''dot'' @ w4 @ c) = Some (Some (last c), [])"
      by (rule s2)
  qed
  have h: "\<not> is_atom_char (hd (w1 @ ''at'' @ w2 @ b @ w3 @ ''dot'' @ w4 @ c))"
          "hd (w1 @ ''at'' @ w2 @ b @ w3 @ ''dot'' @ w4 @ c) \<noteq> CHR ''.''"
    using is_spaces_hd [OF w(1)] ne space_not_atom space_not_dot by simp_all
  have s0: "?k0 (pv', dotted as @ w1 @ ''at'' @ w2 @ b @ w3 @ ''dot'' @ w4 @ c)
              = Some (Some (last c), [])" for pv'
    by (rule first_match_dotted [OF as]) (simp_all only: h s1 simp_thms)
  have "first_match (Plus (Cls is_atom_char)) ?k0
          (pv, a @ (dotted as @ w1 @ ''at'' @ w2 @ b @ w3 @ ''dot'' @ w4 @ c))
          = Some (Some (last c), [])"
  proof (rule first_match_Plus_Cls_greedy [where p = is_atom_char and k = ?k0])
    show "a \<noteq> []" by (rule ne)
    show "\<forall>x \<in> set a. is_atom_char x"
      using a by (simp add: is_atom_def list_all_iff)
    show "dotted as @ w1 @ ''at'' @ w2 @ b @ w3 @ ''dot'' @ w4 @ c = [] \<or>
          \<not> is_atom_char (hd (dotted as @ w1 @ ''at'' @ w2 @ b @ w3 @ ''dot'' @ w4 @ c))"
      using h(1) by (intro dotted_then_hd) simp
    show "?k0 (Some (last a), dotted as @ w1 @ ''at'' @ w2 @ b @ w3 @ ''dot'' @ w4 @ c)
            = Some (Some (last c), [])"
      by (rule s0)
  qed
  then show ?thesis
    by (simp add: emailRegex_def first_match_Seq_fun)
qed

subsection \<open>Lower case\<close>

lemmas lower_defs = toLowerCase_char_def is_upper_def in_range_def code_def

lemma toLowerCase_char_idem: "toLowerCase_char (toLowerCase_char c) = toLowerCase_char c"
  by (auto simp: lower_defs)

lemma toLowerCase_idem: "toLowerCase (toLowerCase s) = toLowerCase s"
  by (simp add: toLowerCase_def toLowerCase_char_idem)

lemma toLowerCase_space: "is_space c \<Longrightarrow> toLowerCase_char c = c"
  by (auto simp: is_space_def lower_defs)

lemma toLowerCase_alnum: "is_alnum c \<Longrightarrow> is_alnum (toLowerCase_char c)"
  by (auto simp: is_alnum_def lower_defs)

lemma toLowerCase_fixes_others: "\<not> is_alnum c \<Longrightarrow> code c < 128 \<Longrightarrow> toLowerCase_char c = c"
  by (auto simp: is_alnum_def lower_defs)

lemma toLowerCase_alnum_hyphen: "is_alnum_hyphen c \<Longrightarrow> is_alnum_hyphen (toLowerCase_char c)"
proof (cases "is_alnum c")
  case True
  then show ?thesis by (simp add: is_alnum_hyphen_def toLowerCase_alnum)
next
  case False
  assume "is_alnum_hyphen c"
  with False have "c = CHR ''-''" by (simp add: is_alnum_hyphen_def)
  then show ?thesis by (simp add: is_alnum_hyphen_def lower_defs)
qed

lemma atom_specials_ascii: "c \<in> set atom_specials \<Longrightarrow> code c < 128"
  by (auto simp: atom_specials_def code_def)

lemma toLowerCase_atom_char: "is_atom_char c \<Longrightarrow> is_atom_char (toLowerCase_char c)"
proof (cases "is_alnum c")
  case True
  then show ?thesis by (simp add: is_atom_char_def toLowerCase_alnum)
next
  case False
  assume "is_atom_char c"
  with False have c: "c \<in> set atom_specials" by (simp add: is_atom_char_def)
  from toLowerCase_fixes_others [OF False atom_specials_ascii [OF c]] c
  show ?thesis by (simp add: is_atom_char_def)
qed

lemma toLowerCase_slash: "toLowerCase_char c = CHR ''/'' \<longleftrightarrow> c = CHR ''/''"
proof -
  have "of_char (toLowerCase_char c) = (47::nat) \<longleftrightarrow> of_char c = (47::nat)"
    by (auto simp: lower_defs)
  moreover have "of_char d = (47::nat) \<longleftrightarrow> d = CHR ''/''" for d
    using of_char_eq_iff [of d "CHR ''/''", where ?'a = nat] by simp
  ultimately show ?thesis
    by simp
qed

lemma toLowerCase_fixed_chars:
  "toLowerCase_char CHR ''@'' = CHR ''@''" "toLowerCase_char CHR ''.'' = CHR ''.''"
  by (simp_all add: lower_defs)

lemma replace_from_match:
  "rx_ends r (pv, s) = en # ens \<Longrightarrow> length (snd en) < length s \<Longrightarrow>
     replace_from r f (pv, s) = f (matched (pv, s) en) @ replace_from r f en"
  by (cases s) simp_all

lemma replace_from_skip:
  assumes "\<And>pv' x rest'. P x \<Longrightarrow> rx_ends r (pv', x # rest') = []"
  shows "list_all P xs \<Longrightarrow>
         replace_from r f (pv, xs @ rest) = xs @ replace_from r f (cursor_end pv xs, rest)"
proof (induction xs arbitrary: pv)
  case Nil
  then show ?case by (simp add: cursor_end_def)
next
  case (Cons x xs)
  then show ?case
    by (simp add: assms cursor_end_Cons)
qed

subsection \<open>Comment lines\<close>

lemma comment_needs_slash: "x \<noteq> CHR ''/'' \<Longrightarrow> rx_ends commentLineRegex (pv, x # rest) = []"
  by (cases pv) (simp_all add: commentLineRegex_def Lit_def)

lemma comment_needs_line_start:
  "\<not> is_line_terminator p \<Longrightarrow> rx_ends commentLineRegex (Some p, s) = []"
  by (simp add: commentLineRegex_def)

lemma comment_needs_two_slashes:
  "\<not> startsWith s ''//'' \<Longrightarrow> rx_ends commentLineRegex (pv, s) = []"
  by (cases s; cases "tl s"; cases pv)
     (auto simp: commentLineRegex_def Lit_def startsWith_def split: if_splits)

lemma comment_end: "rx_ends commentLineRegex (pv, []) = []"
  by (cases pv) (simp_all add: commentLineRegex_def Lit_def)

lemma no_slash_no_comment:
  assumes "CHR ''/'' \<notin> set s"
  shows "replace_from commentLineRegex f (pv, s) = s"
proof -
  from assms have l: "list_all (\<lambda>x. x \<noteq> CHR ''/'') s"
    by (auto simp: list_all_iff)
  have "replace_from commentLineRegex f (pv, s @ [])
          = s @ replace_from commentLineRegex f (cursor_end pv s, [])"
    by (rule replace_from_skip [where P = "\<lambda>x. x \<noteq> CHR ''/''"])
       (simp_all add: comment_needs_slash l)
  then show ?thesis
    by (simp add: comment_end)
qed

lemma no_line_start_no_comment:
  assumes "CHR ''/'' \<notin> set tail"
  shows "\<not> is_line_terminator p \<Longrightarrow> list_all (\<lambda>x. \<not> is_line_terminator x) xs \<Longrightarrow>
         replace_from commentLineRegex f (Some p, xs @ tail) = xs @ tail"
proof (induction xs arbitrary: p)
  case Nil
  then show ?case by (simp add: no_slash_no_comment [OF assms])
next
  case (Cons x xs)
  then show ?case
    by (simp add: comment_needs_line_start)
qed

lemma atom_char_not_line_terminator: "is_atom_char x \<Longrightarrow> \<not> is_line_terminator x"
  by (auto simp: char_classes)

lemma no_comment_line:
  assumes "list_all (\<lambda>x. \<not> is_line_terminator x) s" and "\<not> startsWith (s @ tail) ''//''"
    and "CHR ''/'' \<notin> set tail"
  shows "String_replace (s @ tail) commentLineRegex f = s @ tail"
proof (cases s)
  case Nil
  then show ?thesis
    by (simp add: String_replace_def no_slash_no_comment [OF assms(3)])
next
  case (Cons x xs)
  from assms(2) have "rx_ends commentLineRegex (None, x # xs @ tail) = []"
    using Cons by (simp add: comment_needs_two_slashes)
  moreover have "replace_from commentLineRegex f (Some x, xs @ tail) = xs @ tail"
    using assms(1) Cons by (intro no_line_start_no_comment [OF assms(3)]) simp_all
  ultimately show ?thesis
    using Cons by (simp add: String_replace_def)
qed

subsection \<open>The replacement of \<open>at\<close> and \<open>dot\<close>\<close>

lemma atDot_needs_space: "\<not> is_space x \<Longrightarrow> rx_ends atDotRegex (pv, x # rest) = []"
  by (simp add: atDotRegex_def Plus_def)

lemma atDot_end: "rx_ends atDotRegex (pv, []) = []"
  by (simp add: atDotRegex_def Plus_def)

lemma trim_spaces_around:
  assumes "list_all is_space w1" and "list_all is_space w2"
    and "core \<noteq> []" and "\<not> is_space (hd core)" and "\<not> is_space (last core)"
  shows "trim (w1 @ core @ w2) = core"
proof -
  from assms(3,4) have d1: "dropWhile is_space (w1 @ core @ w2) = core @ w2"
    using assms(1) by (cases core) (auto simp: dropWhile_append list_all_iff)
  from assms(3,5) have "dropWhile is_space (rev w2 @ rev core) = rev core"
    using assms(2) by (cases core rule: rev_cases) (auto simp: dropWhile_append list_all_iff)
  with d1 show ?thesis
    by (simp add: trim_def)
qed

lemma first_match_atDot_at:
  assumes "is_spaces w1" and "is_spaces w2" and "rest = [] \<or> \<not> is_space (hd rest)"
  shows "first_match atDotRegex Some (pv, w1 @ ''at'' @ w2 @ rest) = Some (Some (last w2), rest)"
proof -
  from assms(1) have w1: "w1 \<noteq> []" "\<forall>x \<in> set w1. is_space x"
    by (auto simp: is_spaces_def list_all_iff)
  from assms(2) have w2: "w2 \<noteq> []" "\<forall>x \<in> set w2. is_space x"
    by (auto simp: is_spaces_def list_all_iff)
  let ?k = "first_match (Seq (Alt (Str ''at'') (Str ''dot'')) (Plus (Cls is_space))) Some
              :: cursor \<Rightarrow> cursor option"
  have a: "first_match (Plus (Cls is_space)) Some (Some CHR ''t'', w2 @ rest)
             = Some (Some (last w2), rest)"
    by (rule first_match_Plus_Cls_greedy [where p = is_space and k = Some, OF w2 assms(3)]) simp
  have b: "?k (Some (last w1), ''at'' @ w2 @ rest) = Some (Some (last w2), rest)"
    using a by (simp add: first_match_Seq first_match_Alt Lit_def first_match_Cls)
  have "first_match (Plus (Cls is_space)) ?k (pv, w1 @ ''at'' @ w2 @ rest)
          = Some (Some (last w2), rest)"
    by (rule first_match_Plus_Cls_greedy [where p = is_space and k = ?k, OF w1 _ b])
       (simp add: not_space_at)
  then show ?thesis
    by (simp add: atDotRegex_def first_match_Seq_fun)
qed

lemma first_match_atDot_dot:
  assumes "is_spaces w1" and "is_spaces w2" and "rest = [] \<or> \<not> is_space (hd rest)"
  shows "first_match atDotRegex Some (pv, w1 @ ''dot'' @ w2 @ rest) = Some (Some (last w2), rest)"
proof -
  from assms(1) have w1: "w1 \<noteq> []" "\<forall>x \<in> set w1. is_space x"
    by (auto simp: is_spaces_def list_all_iff)
  from assms(2) have w2: "w2 \<noteq> []" "\<forall>x \<in> set w2. is_space x"
    by (auto simp: is_spaces_def list_all_iff)
  let ?k = "first_match (Seq (Alt (Str ''at'') (Str ''dot'')) (Plus (Cls is_space))) Some
              :: cursor \<Rightarrow> cursor option"
  have a: "first_match (Plus (Cls is_space)) Some (Some CHR ''t'', w2 @ rest)
             = Some (Some (last w2), rest)"
    by (rule first_match_Plus_Cls_greedy [where p = is_space and k = Some, OF w2 assms(3)]) simp
  have b: "?k (Some (last w1), ''dot'' @ w2 @ rest) = Some (Some (last w2), rest)"
    using a by (simp add: first_match_Seq first_match_Alt Lit_def first_match_Cls)
  have "first_match (Plus (Cls is_space)) ?k (pv, w1 @ ''dot'' @ w2 @ rest)
          = Some (Some (last w2), rest)"
    by (rule first_match_Plus_Cls_greedy [where p = is_space and k = ?k, OF w1 _ b])
       (simp add: not_space_at)
  then show ?thesis
    by (simp add: atDotRegex_def first_match_Seq_fun)
qed

lemma matched_prefix: "matched (pv, m @ rest) (pv', rest) = m"
  by (simp add: matched_def)

lemma replace_at_step:
  assumes "is_spaces w1" and "is_spaces w2" and "rest = [] \<or> \<not> is_space (hd rest)"
  shows "replace_from atDotRegex atDotReplacement (pv, w1 @ ''at'' @ w2 @ rest)
           = ''@'' @ replace_from atDotRegex atDotReplacement (Some (last w2), rest)"
proof -
  from first_match_head [OF first_match_atDot_at [OF assms, of pv]]
  obtain ens where e: "rx_ends atDotRegex (pv, w1 @ ''at'' @ w2 @ rest) = (Some (last w2), rest) # ens"
    by blast
  have m: "matched (pv, w1 @ ''at'' @ w2 @ rest) (Some (last w2), rest) = w1 @ ''at'' @ w2"
    using matched_prefix [of pv "w1 @ ''at'' @ w2" rest] by simp
  have "trim (w1 @ ''at'' @ w2) = ''at''"
    using assms(1,2) by (intro trim_spaces_around) (simp_all add: is_spaces_def is_space_def)
  then have "atDotReplacement (w1 @ ''at'' @ w2) = ''@''"
    by (simp add: atDotReplacement_def)
  with replace_from_match [OF e, of atDotReplacement] m show ?thesis
    by simp
qed

lemma replace_dot_step:
  assumes "is_spaces w1" and "is_spaces w2" and "rest = [] \<or> \<not> is_space (hd rest)"
  shows "replace_from atDotRegex atDotReplacement (pv, w1 @ ''dot'' @ w2 @ rest)
           = ''.'' @ replace_from atDotRegex atDotReplacement (Some (last w2), rest)"
proof -
  from first_match_head [OF first_match_atDot_dot [OF assms, of pv]]
  obtain ens where e: "rx_ends atDotRegex (pv, w1 @ ''dot'' @ w2 @ rest) = (Some (last w2), rest) # ens"
    by blast
  have m: "matched (pv, w1 @ ''dot'' @ w2 @ rest) (Some (last w2), rest) = w1 @ ''dot'' @ w2"
    using matched_prefix [of pv "w1 @ ''dot'' @ w2" rest] by simp
  have "trim (w1 @ ''dot'' @ w2) = ''dot''"
    using assms(1,2) by (intro trim_spaces_around) (simp_all add: is_spaces_def is_space_def)
  then have "atDotReplacement (w1 @ ''dot'' @ w2) = ''.''"
    by (simp add: atDotReplacement_def)
  with replace_from_match [OF e, of atDotReplacement] m show ?thesis
    by simp
qed

subsection \<open>Local parts\<close>

lemma dotted_all:
  assumes "P CHR ''.''" and "\<And>c. is_atom_char c \<Longrightarrow> P c"
  shows "list_all is_atom as \<Longrightarrow> list_all P (dotted as)"
  by (induction as) (auto simp: dotted_Nil dotted_Cons assms is_atom_def list_all_iff)

lemma local_part_all:
  assumes "P CHR ''.''" and "\<And>c. is_atom_char c \<Longrightarrow> P c"
    and "is_atom a" and "list_all is_atom as"
  shows "list_all P (a @ dotted as)"
  using dotted_all [of P as, OF assms(1,2,4)] assms(2,3)
  by (auto simp: is_atom_def list_all_iff)

lemma local_part_no_space:
  "is_atom a \<Longrightarrow> list_all is_atom as \<Longrightarrow> list_all (\<lambda>x. \<not> is_space x) (a @ dotted as)"
proof (rule local_part_all)
  show "\<not> is_space CHR ''.''"
    by (simp add: is_space_def)
  show "\<not> is_space c" if "is_atom_char c" for c
    using that space_not_atom by blast
qed

lemma local_part_no_line_terminator:
  "is_atom a \<Longrightarrow> list_all is_atom as \<Longrightarrow>
     list_all (\<lambda>x. \<not> is_line_terminator x) (a @ dotted as)"
proof (rule local_part_all)
  show "\<not> is_line_terminator CHR ''.''"
    by (simp add: is_line_terminator_def)
  show "\<not> is_line_terminator c" if "is_atom_char c" for c
    using that by (rule atom_char_not_line_terminator)
qed

lemma label_no_space: "is_label b \<Longrightarrow> list_all (\<lambda>x. \<not> is_space x) b"
  by (auto simp: is_label_def list_all_iff dest: space_not_alnum_hyphen)

lemma label_starts_unspaced: "is_label b \<Longrightarrow> b @ rest = [] \<or> \<not> is_space (hd (b @ rest))"
  by (cases b) (auto simp: is_label_def dest: space_not_alnum_hyphen)

lemma atDot_skip:
  "list_all (\<lambda>x. \<not> is_space x) xs \<Longrightarrow>
     replace_from atDotRegex f (pv, xs @ rest) = xs @ replace_from atDotRegex f (cursor_end pv xs, rest)"
  by (rule replace_from_skip [where P = "\<lambda>x. \<not> is_space x"]) (simp_all add: atDot_needs_space)

lemma atDot_replace_address:
  assumes l: "list_all (\<lambda>x. \<not> is_space x) l" and b: "is_label b" and c: "is_label c"
    and w: "is_spaces w1" "is_spaces w2" "is_spaces w3" "is_spaces w4"
  shows "String_replace (l @ w1 @ ''at'' @ w2 @ b @ w3 @ ''dot'' @ w4 @ c) atDotRegex atDotReplacement
           = l @ ''@'' @ b @ ''.'' @ c"
proof -
  let ?R = "replace_from atDotRegex atDotReplacement"
  have s1: "?R (None, l @ w1 @ ''at'' @ w2 @ b @ w3 @ ''dot'' @ w4 @ c)
              = l @ ?R (cursor_end None l, w1 @ ''at'' @ w2 @ b @ w3 @ ''dot'' @ w4 @ c)"
    by (rule atDot_skip [OF l])
  have s2: "?R (pv, w1 @ ''at'' @ w2 @ b @ w3 @ ''dot'' @ w4 @ c)
              = ''@'' @ ?R (Some (last w2), b @ w3 @ ''dot'' @ w4 @ c)" for pv
    by (rule replace_at_step [OF w(1,2) label_starts_unspaced [OF b]])
  have s3: "?R (pv, b @ w3 @ ''dot'' @ w4 @ c)
              = b @ ?R (cursor_end pv b, w3 @ ''dot'' @ w4 @ c)" for pv
    by (rule atDot_skip [OF label_no_space [OF b]])
  have s4: "?R (pv, w3 @ ''dot'' @ w4 @ c @ []) = ''.'' @ ?R (Some (last w4), c @ [])" for pv
    by (rule replace_dot_step [OF w(3,4) label_starts_unspaced [OF c]])
  have s5: "?R (pv, c @ []) = c @ ?R (cursor_end pv c, [])" for pv
    by (rule atDot_skip [OF label_no_space [OF c]])
  have s6: "?R (pv, []) = []" for pv
    by (simp add: atDot_end)
  have "?R (None, l @ w1 @ ''at'' @ w2 @ b @ w3 @ ''dot'' @ w4 @ c)
          = l @ ''@'' @ b @ ''.'' @ c"
    unfolding s1 s2 s3 using s4 s5 s6 by simp
  then show ?thesis
    by (simp add: String_replace_def)
qed

lemma emailRegex_end: "rx_ends emailRegex (pv, []) = []"
proof (cases "rx_ends emailRegex (pv, [])")
  case (Cons en ens)
  from emailRegex_consumes [OF this] show ?thesis by simp
qed simp

lemma emailRegex_exec_loop_whole:
  assumes "rx_ends emailRegex (pv, s) = (pv', []) # ens"
  shows "emailRegex_exec_loop (pv, s)
           = (if \<not> startsWith s ''//'' then [String_replace s atDotRegex atDotReplacement] else [])"
proof -
  have "matched (pv, s) (pv', []) = s"
    using matched_prefix [of pv s "[]" pv'] by simp
  moreover have "emailRegex_exec_loop (pv', []) = []"
    by (simp add: emailRegex_exec_loop.simps [of pv' "[]"] emailRegex_end)
  ultimately show ?thesis
    using assms by (simp add: emailRegex_exec_loop.simps [of pv s])
qed

subsection \<open>Lower case of the parts\<close>

lemma toLowerCase_append: "toLowerCase (xs @ ys) = toLowerCase xs @ toLowerCase ys"
  by (simp add: toLowerCase_def)

lemma toLowerCase_spaces: "is_spaces w \<Longrightarrow> toLowerCase w = w"
  by (auto simp: is_spaces_def toLowerCase_def list_all_iff toLowerCase_space intro: map_idI)

lemma toLowerCase_atom: "is_atom a \<Longrightarrow> is_atom (toLowerCase a)"
  by (auto simp: is_atom_def toLowerCase_def list_all_iff toLowerCase_atom_char)

lemma toLowerCase_atoms: "list_all is_atom as \<Longrightarrow> list_all is_atom (map toLowerCase as)"
  by (auto simp: list_all_iff toLowerCase_atom)

lemma toLowerCase_dotted: "toLowerCase (dotted as) = dotted (map toLowerCase as)"
  unfolding toLowerCase_def [abs_def]
  by (induction as) (simp_all add: dotted_Nil dotted_Cons toLowerCase_fixed_chars)

lemma toLowerCase_label: "is_label b \<Longrightarrow> is_label (toLowerCase b)"
  by (auto simp: is_label_def toLowerCase_def list_all_iff toLowerCase_alnum_hyphen
        toLowerCase_alnum hd_map last_map)

lemma toLowerCase_no_slash: "CHR ''/'' \<notin> set (toLowerCase s) \<longleftrightarrow> CHR ''/'' \<notin> set s"
proof -
  have "CHR ''/'' = toLowerCase_char c \<longleftrightarrow> CHR ''/'' = c" for c
    using toLowerCase_slash [of c] by auto
  then show ?thesis
    by (induction s) (simp_all add: toLowerCase_def)
qed

lemma space_not_slash: "is_space c \<Longrightarrow> c \<noteq> CHR ''/''"
  by (auto simp: char_classes)

lemma alnum_hyphen_not_slash: "is_alnum_hyphen c \<Longrightarrow> c \<noteq> CHR ''/''"
  by (auto simp: char_classes)

lemma spaces_no_slash: "is_spaces w \<Longrightarrow> CHR ''/'' \<notin> set w"
  by (auto simp: is_spaces_def list_all_iff dest: space_not_slash)

lemma label_no_slash: "is_label b \<Longrightarrow> CHR ''/'' \<notin> set b"
  by (auto simp: is_label_def list_all_iff dest: alnum_hyphen_not_slash)

lemma local_part_starts:
  assumes "is_atom a" and "\<not> startsWith a ''//''" and "is_spaces w"
  shows "\<not> startsWith (a @ dotted as @ w @ rest) ''//''"
proof -
  from assms(1) obtain x xs where a: "a = x # xs" by (cases a) (auto simp: is_atom_def)
  from assms(3) obtain y ys where w: "w = y # ys" and y: "is_space y"
    by (cases w) (auto simp: is_spaces_def)
  show ?thesis
  proof (cases xs)
    case Nil
    with a w space_not_slash [OF y] show ?thesis
      by (cases as) (simp_all add: startsWith_def dotted_Nil dotted_Cons)
  next
    case (Cons z zs)
    with a assms(2) show ?thesis by (simp add: startsWith_def)
  qed
qed

subsection \<open>Every address of the result is in lower case\<close>

lemma replace_from_chars:
  assumes f: "\<And>m. \<forall>c \<in> set (f m). P c"
  shows "\<forall>c \<in> set s. P c \<Longrightarrow> \<forall>c \<in> set (replace_from r f (pv, s)). P c"
proof (induction "length s" arbitrary: pv s rule: less_induct)
  case less
  show ?case
  proof (cases s)
    case Nil
    then show ?thesis
      using f [of "[]"] by (simp split: list.splits)
  next
    case (Cons x xs)
    have tl: "\<forall>c \<in> set (replace_from r f (Some x, xs)). P c"
      using less.prems Cons by (intro less.hyps) simp_all
    show ?thesis
    proof (cases "rx_ends r (pv, x # xs)")
      case Nil
      then show ?thesis
        using tl less.prems Cons by simp
    next
      case (Cons en ens)
      obtain pv' s' where en: "en = (pv', s')" by (cases en)
      from rx_ends_suffix [of en r "(pv, x # xs)"] Cons en
      obtain pre where pre: "x # xs = pre @ s'" by auto
      then have s': "\<forall>c \<in> set s'. P c"
        using less.prems \<open>s = x # xs\<close> by (metis Un_iff set_append)
      have "\<forall>c \<in> set (replace_from r f (pv', s')). P c" if "length s' < Suc (length xs)"
        using that s' \<open>s = x # xs\<close> by (intro less.hyps) simp_all
      then show ?thesis
        using Cons en tl less.prems \<open>s = x # xs\<close> f by auto
    qed
  qed
qed

lemma atDotReplacement_chars: "set (atDotReplacement m) \<subseteq> {CHR ''@'', CHR ''.''}"
  by (simp add: atDotReplacement_def)

lemma emailRegex_exec_loop_chars:
  assumes "P CHR ''@''" and "P CHR ''.''"
  shows "\<forall>c \<in> set s. P c \<Longrightarrow>
         \<forall>e \<in> set (emailRegex_exec_loop (pv, s)). \<forall>c \<in> set e. P c"
proof (induction "length s" arbitrary: pv s rule: less_induct)
  case less
  show ?case
  proof (cases "rx_ends emailRegex (pv, s)")
    case Nil
    show ?thesis
    proof (cases s)
      case Nil
      with \<open>rx_ends emailRegex (pv, s) = []\<close> show ?thesis
        by (simp add: emailRegex_exec_loop.simps [of pv "[]"])
    next
      case (Cons x xs)
      have "\<forall>e \<in> set (emailRegex_exec_loop (Some x, xs)). \<forall>c \<in> set e. P c"
        using less.prems Cons by (intro less.hyps) simp_all
      with Nil Cons show ?thesis
        by (simp add: emailRegex_exec_loop.simps [of pv "x # xs"])
    qed
  next
    case (Cons en ens)
    obtain pv' s' where en: "en = (pv', s')" by (cases en)
    from emailRegex_consumes [OF Cons] en have len: "length s' < length s" by simp
    from rx_ends_suffix [of en emailRegex "(pv, s)"] Cons en
    obtain pre where pre: "s = pre @ s'" by auto
    then have s': "\<forall>c \<in> set s'. P c"
      using less.prems by (metis Un_iff set_append)
    have rest: "\<forall>e \<in> set (emailRegex_exec_loop (pv', s')). \<forall>c \<in> set e. P c"
      using len s' by (intro less.hyps)
    have "\<forall>c \<in> set (matched (pv, s) en). P c"
      using less.prems by (auto simp: matched_def dest: in_set_takeD)
    then have "\<forall>c \<in> set (String_replace (matched (pv, s) en) atDotRegex atDotReplacement). P c"
      unfolding String_replace_def
      using atDotReplacement_chars assms by (intro replace_from_chars) auto
    with rest Cons en show ?thesis
      by (auto simp: emailRegex_exec_loop.simps [of pv s])
  qed
qed

lemma parseEmailAddresses_lowercase:
  assumes "e \<in> set (parseEmailAddresses input)"
  shows "toLowerCase e = e"
proof -
  let ?clean = "toLowerCase (String_replace input commentLineRegex (\<lambda>m. []))"
  have "\<forall>c \<in> set ?clean. toLowerCase_char c = c"
    by (auto simp: toLowerCase_def toLowerCase_char_idem)
  from emailRegex_exec_loop_chars [where P = "\<lambda>c. toLowerCase_char c = c", OF _ _ this, of None]
  have "\<forall>e \<in> set (emailRegex_exec_loop (None, ?clean)). \<forall>c \<in> set e. toLowerCase_char c = c"
    by (simp add: toLowerCase_fixed_chars)
  with assms have "\<forall>c \<in> set e. toLowerCase_char c = c"
    by (auto simp: parseEmailAddresses_def split: if_splits)
  then show ?thesis
    by (auto simp: toLowerCase_def intro: map_idI)
qed

subsection \<open>The address of a spelled-out text\<close>

lemma spelled_out_address_parsed:
  assumes a: "is_atom a" and as: "list_all is_atom as" and b: "is_label b" and c: "is_label c"
    and w: "is_spaces w1" "is_spaces w2" "is_spaces w3" "is_spaces w4"
    and at: "toLowerCase at = ''at''" and dot: "toLowerCase dot = ''dot''"
    and nc: "\<not> startsWith a ''//''"
  shows "parseEmailAddresses (join ''.'' (a # as) @ w1 @ at @ w2 @ b @ w3 @ dot @ w4 @ c)
           = [toLowerCase (join ''.'' (a # as)) @ ''@'' @ toLowerCase b @ ''.'' @ toLowerCase c]"
proof -
  let ?l = "a @ dotted as"
  let ?input = "a @ dotted as @ w1 @ at @ w2 @ b @ w3 @ dot @ w4 @ c"
  let ?la = "toLowerCase a" and ?las = "map toLowerCase as"
  let ?lb = "toLowerCase b" and ?lc = "toLowerCase c"
  let ?ll = "?la @ dotted ?las"
  let ?clean = "?la @ dotted ?las @ w1 @ ''at'' @ w2 @ ?lb @ w3 @ ''dot'' @ w4 @ ?lc"
  have t: "truthy ?input"
    using a by (simp add: truthy_def is_atom_def)
  have "CHR ''/'' \<notin> set (toLowerCase at)" "CHR ''/'' \<notin> set (toLowerCase dot)"
    by (simp_all add: at dot)
  then have "CHR ''/'' \<notin> set at" "CHR ''/'' \<notin> set dot"
    by (simp_all add: toLowerCase_no_slash)
  then have sl: "CHR ''/'' \<notin> set (w1 @ at @ w2 @ b @ w3 @ dot @ w4 @ c)"
    using w b c by (simp add: spaces_no_slash label_no_slash)
  have st: "\<not> startsWith (?l @ w1 @ at @ w2 @ b @ w3 @ dot @ w4 @ c) ''//''"
    using local_part_starts [OF a nc w(1), of as] by simp
  from no_comment_line [OF local_part_no_line_terminator [OF a as] st sl]
  have cm: "String_replace ?input commentLineRegex (\<lambda>m. []) = ?input"
    by simp
  have p: "parseEmailAddresses ?input
             = emailRegex_exec_loop (None, toLowerCase (String_replace ?input commentLineRegex (\<lambda>m. [])))"
    using t by (simp add: parseEmailAddresses_def)
  have lc: "toLowerCase ?input = ?clean"
    using w by (simp add: toLowerCase_append toLowerCase_spaces toLowerCase_dotted at dot)
  have la: "is_atom ?la" and las: "list_all is_atom ?las"
    and lb: "is_label ?lb" and lcc: "is_label ?lc"
    using a as b c by (simp_all add: toLowerCase_atom toLowerCase_atoms toLowerCase_label)
  from first_match_head [OF emailRegex_first_match [OF la las lb lcc w, of None]]
  obtain ens where "rx_ends emailRegex (None, ?clean) = (Some (last ?lc), []) # ens"
    by auto
  from emailRegex_exec_loop_whole [OF this]
  have l: "emailRegex_exec_loop (None, ?clean)
             = (if \<not> startsWith ?clean ''//''
                then [String_replace ?clean atDotRegex atDotReplacement] else [])" .
  have "\<not> startsWith ?la ''//''"
    using nc by (cases a; cases "tl a") (auto simp: startsWith_def toLowerCase_def toLowerCase_slash)
  from local_part_starts [OF la this w(1), of ?las]
  have ns: "\<not> startsWith ?clean ''//''"
    by simp
  have "String_replace ?clean atDotRegex atDotReplacement = ?ll @ ''@'' @ ?lb @ ''.'' @ ?lc"
    using atDot_replace_address [OF local_part_no_space [OF la las] lb lcc w] by simp
  with l ns have "emailRegex_exec_loop (None, ?clean) = [?ll @ ''@'' @ ?lb @ ''.'' @ ?lc]"
    by simp
  then have "parseEmailAddresses ?input = [?ll @ ''@'' @ ?lb @ ''.'' @ ?lc]"
    unfolding p cm lc .
  then show ?thesis
    by (simp add: join_dotted toLowerCase_append toLowerCase_dotted)
qed

subsection \<open>Spelled-out addresses\<close>

text \<open>
  C5, as stated: every text \<open>a at b dot c\<close> gives the address \<open>a@b.c\<close>.  A local part
  may begin with \<open>//\<close> (the slash is a character of an atom), and then the text is a
  comment line: \<open>parseEmailAddresses\<close> removes it before it looks for addresses, and
  it would drop a match that begins with \<open>//\<close> as well.  The same text without the
  two slashes gives its address.
\<close>

theorem parseEmailAddresses_comment_marker_counterexample:
  "is_atom ''//x'' \<and> is_label ''y'' \<and> is_label ''z'' \<and> is_spaces '' '' \<and>
   parseEmailAddresses ''//x at y dot z'' = [] \<and>
   parseEmailAddresses ''x at y dot z'' = [''x@y.z'']"
  by (simp add: parse_eval is_atom_def is_label_def is_spaces_def)

text \<open>
  C5, amended: let the local part be atoms joined by dots, not beginning with \<open>//\<close>,
  let \<open>b\<close> and \<open>c\<close> be labels of a domain, let the words be \<open>at\<close> and \<open>dot\<close> in any
  case, each between non-empty runs of white space.  Then \<open>parseEmailAddresses\<close> of
  the text is the one address \<open>a@b.c\<close> in lower case.  And whatever the input, every
  address of the result is in lower case.
\<close>

theorem parseEmailAddresses_spelled_out:
  assumes "is_atom a" and "list_all is_atom as" and "is_label b" and "is_label c"
    and "is_spaces w1" and "is_spaces w2" and "is_spaces w3" and "is_spaces w4"
    and "toLowerCase at = ''at''" and "toLowerCase dot = ''dot''"
    and "\<not> startsWith a ''//''"
  shows "parseEmailAddresses (join ''.'' (a # as) @ w1 @ at @ w2 @ b @ w3 @ dot @ w4 @ c)
           = [toLowerCase (join ''.'' (a # as)) @ ''@'' @ toLowerCase b @ ''.'' @ toLowerCase c] \<and>
         (\<forall>e \<in> set (parseEmailAddresses input). toLowerCase e = e)"
  using spelled_out_address_parsed [OF assms] parseEmailAddresses_lowercase
  by blast

theorem parseEmailAddresses_spelled_out_witness:
  "is_atom ''John'' \<and> list_all is_atom [''Doe''] \<and> is_label ''My-Site'' \<and> is_label ''COM'' \<and>
   is_spaces '' '' \<and> is_spaces [TAB, CHR '' ''] \<and>
   toLowerCase ''AT'' = ''at'' \<and> toLowerCase ''Dot'' = ''dot'' \<and>
   \<not> startsWith ''John'' ''//'' \<and>
   parseEmailAddresses (''John.Doe AT'' @ [TAB] @ '' My-Site Dot'' @ [TAB] @ '' COM'')
     = [''john.doe@my-site.com''] \<and>
   parseEmailAddresses ''U@x.com; v at Y dot org'' = [''u@x.com'', ''v@y.org''] \<and>
   toLowerCase ''u@x.com'' = ''u@x.com'' \<and> toLowerCase ''v@y.org'' = ''v@y.org''"
proof -
  have h: "is_atom ''John''" "list_all is_atom [''Doe'']" "is_label ''My-Site''" "is_label ''COM''"
    "is_spaces '' ''" "is_spaces [TAB, CHR '' '']" "is_spaces '' ''" "is_spaces [TAB, CHR '' '']"
    by (simp_all add: is_atom_def is_label_def is_spaces_def char_classes)
  have l: "toLowerCase ''AT'' = ''at''" "toLowerCase ''Dot'' = ''dot''"
    by (simp_all add: lower_eval)
  have n: "\<not> startsWith ''John'' ''//''"
    by (simp add: startsWith_def)
  have r: "toLowerCase ''John.Doe'' = ''john.doe''" "toLowerCase ''My-Site'' = ''my-site''"
    "toLowerCase ''COM'' = ''com''"
    by (simp_all add: lower_eval)
  from parseEmailAddresses_spelled_out [OF h l n, of "''U@x.com; v at Y dot org''"]
  have "parseEmailAddresses (''John.Doe AT'' @ [TAB] @ '' My-Site Dot'' @ [TAB] @ '' COM'')
          = [''john.doe@my-site.com'']"
    and "\<forall>e \<in> set (parseEmailAddresses ''U@x.com; v at Y dot org''). toLowerCase e = e"
    by (simp_all add: r)
  then show ?thesis
    using h l n by (simp add: ex_two_addresses)
qed

end
